theory Spec2Isabelle
  imports Main "HOL-Library.Sublist" "HOL-Library.AList"
begin

section \<open>Python values shared by both modules\<close>

text \<open>
  A Python \<open>str\<close> is modelled as a \<open>string\<close>; one \<open>char\<close> stands for one code point
  below 256.  Exceptions are values of the type \<open>exn\<close>; a function that may raise returns
  \<open>exn + 'a\<close> with \<open>Inl\<close> for the exception.  \<open>UnicodeDecodeError\<close> and
  \<open>UnicodeEncodeError\<close> are subclasses of \<open>ValueError\<close> in Python.
\<close>

datatype exn =
    FileNotFoundError string
  | IsADirectoryError
  | NotADirectoryError
  | FileExistsError
  | SameFileError
  | ValueError string
  | UnicodeDecodeError
  | UnicodeEncodeError
  | ReplError
  | UserWarning string
  | CalledProcessError int
  | KeyboardInterrupt
  | LoadError string

definition is_ValueError :: "exn \<Rightarrow> bool" where
  "is_ValueError e =
     (case e of
        ValueError msg \<Rightarrow> True
      | UnicodeDecodeError \<Rightarrow> True
      | UnicodeEncodeError \<Rightarrow> True
      | _ \<Rightarrow> False)"

text \<open>\<open>sep.join(xs)\<close>\<close>

fun sep_join :: "string \<Rightarrow> string list \<Rightarrow> string" where
  "sep_join sep [] = []"
| "sep_join sep [x] = x"
| "sep_join sep (x # y # ys) = x @ sep @ sep_join sep (y # ys)"

text \<open>\<open>s.split(c)\<close> for a one-character separator: the result is never empty.\<close>

fun split_on :: "char \<Rightarrow> string \<Rightarrow> string list" where
  "split_on c [] = [[]]"
| "split_on c (x # xs) =
     (if x = c then [] # split_on c xs
      else (case split_on c xs of
              [] \<Rightarrow> [[x]]
            | w # ws \<Rightarrow> (x # w) # ws))"

text \<open>
  \<open>s.replace(old, new)\<close>: the occurrences of \<open>old\<close> are replaced from left to right and do
  not overlap; an empty \<open>old\<close> matches before every character and at the end.
\<close>

function str_replace :: "string \<Rightarrow> string \<Rightarrow> string \<Rightarrow> string" where
  "str_replace old new [] = (if old = [] then new else [])"
| "str_replace old new (c # cs) =
     (if old = [] then new @ c # str_replace old new cs
      else if prefix old (c # cs)
        then new @ str_replace old new (drop (length old) (c # cs))
        else c # str_replace old new cs)"
  by pat_completeness auto
termination
  by (relation "measure (\<lambda>(old, new, s). length s)") auto

section \<open>\<open>keras_cv/src/utils/resource_loader.py\<close>\<close>

subsection \<open>The functions of \<open>os.path\<close> (POSIX flavour) that the module calls\<close>

definition os_sep :: string where
  "os_sep = ''/''"

text \<open>\<open>os.path.join\<close> with two arguments, and with more by iteration from the left.\<close>

definition join2 :: "string \<Rightarrow> string \<Rightarrow> string" where
  "join2 a b =
     (if prefix ''/'' b then b
      else if a = [] \<or> suffix ''/'' a then a @ b
      else a @ ''/'' @ b)"

definition join :: "string \<Rightarrow> string list \<Rightarrow> string" where
  "join a ps = foldl join2 a ps"

text \<open>The loop of \<open>os.path.normpath\<close> over the components; \<open>i\<close> is \<open>initial_slashes\<close>.\<close>

fun norm_comps :: "nat \<Rightarrow> string list \<Rightarrow> string list \<Rightarrow> string list" where
  "norm_comps i [] new_comps = new_comps"
| "norm_comps i (cmp # comps) new_comps =
     (if cmp = [] \<or> cmp = ''.'' then norm_comps i comps new_comps
      else if cmp \<noteq> ''..'' \<or> (i = 0 \<and> new_comps = [])
              \<or> (new_comps \<noteq> [] \<and> last new_comps = ''..'')
        then norm_comps i comps (new_comps @ [cmp])
      else if new_comps \<noteq> [] then norm_comps i comps (butlast new_comps)
      else norm_comps i comps new_comps)"

definition normpath :: "string \<Rightarrow> string" where
  "normpath path =
     (if path = [] then ''.''
      else
        let initial_slashes =
              (if prefix ''/'' path
               then (if prefix ''//'' path \<and> \<not> prefix ''///'' path then 2 else 1)
               else (0::nat));
            comps = norm_comps initial_slashes (split_on CHR ''/'' path) [];
            p = replicate initial_slashes CHR ''/'' @ sep_join ''/'' comps
        in if p = [] then ''.'' else p)"

text \<open>
  \<open>os.path.dirname\<close>: the part up to and including the last slash, without its trailing
  slashes unless it consists of slashes only.
\<close>

definition dirname :: "string \<Rightarrow> string" where
  "dirname p =
     (let head = rev (dropWhile (\<lambda>c. c \<noteq> CHR ''/'') (rev p))
      in if head \<noteq> [] \<and> list_ex (\<lambda>c. c \<noteq> CHR ''/'') head
         then rev (dropWhile (\<lambda>c. c = CHR ''/'') (rev head))
         else head)"

subsection \<open>What the module reads from its surroundings\<close>

text \<open>
  \<open>module_file\<close> is \<open>os.path.abspath(__file__)\<close>, \<open>environ\<close> is \<open>os.environ\<close>, and
  \<open>path_exists\<close> is \<open>os.path.exists\<close> on the current filesystem.
\<close>

record loader_env =
  module_file :: string
  environ :: "string \<rightharpoonup> string"
  path_exists :: "string \<Rightarrow> bool"

definition get_project_root :: "loader_env \<Rightarrow> string" where
  "get_project_root E = dirname (dirname (module_file E))"

subsection \<open>\<open>get_path_to_datafile\<close>\<close>

definition search_roots :: "loader_env \<Rightarrow> string list" where
  "search_roots E =
     (let root_dir = get_project_root E;
          package_root = dirname root_dir;
          workspace_root = dirname package_root;
          override_root = environ E ''KERAS_CV_DATA_ROOT''
      in (case override_root of
            None \<Rightarrow> []
          | Some r \<Rightarrow> if r \<noteq> [] then [r] else [])
         @ [root_dir, package_root,
            join workspace_root [''bazel-bin'', ''keras_cv'', ''src'']])"

text \<open>
  The \<open>for\<close> loop over the roots.  It returns \<open>Inr\<close> the candidate at the \<open>return\<close>
  inside the loop, and \<open>Inl\<close> the final \<open>attempted_paths\<close> when the loop runs to its end.
\<close>

fun search_loop ::
  "(string \<Rightarrow> bool) \<Rightarrow> string \<Rightarrow> string list \<Rightarrow> string list \<Rightarrow> string list + string" where
  "search_loop ex normalized_path [] attempted_paths = Inl attempted_paths"
| "search_loop ex normalized_path (candidate_root # roots) attempted_paths =
     (if candidate_root = [] then search_loop ex normalized_path roots attempted_paths
      else
        let candidate = normpath (join candidate_root [normalized_path]);
            attempted_paths' = attempted_paths @ [candidate]
        in if ex candidate then Inr candidate
           else search_loop ex normalized_path roots attempted_paths')"

definition not_found_message :: "string \<Rightarrow> string list \<Rightarrow> string" where
  "not_found_message path attempted_paths =
     ''Unable to locate resource '' @ [CHR 0x27] @ path @ [CHR 0x27]
       @ ''. Looked in: '' @ sep_join '', '' attempted_paths"

definition get_path_to_datafile :: "loader_env \<Rightarrow> string \<Rightarrow> exn + string" where
  "get_path_to_datafile E path =
     (let normalized_path = str_replace ''/'' os_sep path
      in case search_loop (path_exists E) normalized_path (search_roots E) [] of
           Inr candidate \<Rightarrow> Inr candidate
         | Inl attempted_paths \<Rightarrow>
             Inl (FileNotFoundError (not_found_message path attempted_paths)))"


text \<open>
  The candidate paths in search order, as a list: one for every non-empty root.
\<close>

definition candidates_of :: "string \<Rightarrow> string list \<Rightarrow> string list" where
  "candidates_of normalized_path roots =
     map (\<lambda>r. normpath (join r [normalized_path])) (filter (\<lambda>r. r \<noteq> []) roots)"

definition candidates :: "loader_env \<Rightarrow> string \<Rightarrow> string list" where
  "candidates E path = candidates_of (str_replace ''/'' os_sep path) (search_roots E)"


subsection \<open>\<open>LazySO\<close> and the ABI warning\<close>

text \<open>
  What the module uses of TensorFlow: the version string \<open>tf.__version__\<close> and
  \<open>tf.load_op_library\<close>, which returns a library object or raises.
\<close>

record 'lib tf_module =
  tf_version :: string
  load_op_library :: "string \<Rightarrow> exn + 'lib"

definition TF_VERSION_FOR_ABI_COMPATIBILITY :: string where
  "TF_VERSION_FOR_ABI_COMPATIBILITY = ''2.17''"

definition abi_is_compatible :: "'lib tf_module \<Rightarrow> bool" where
  "abi_is_compatible tf = prefix TF_VERSION_FOR_ABI_COMPATIBILITY (tf_version tf)"

text \<open>
  The module-level state of the process: the flag \<open>abi_warning_already_raised\<close>, and the
  messages that \<open>warnings.warn\<close> has been called with so far, oldest first.
\<close>

record globals =
  abi_warning_already_raised :: bool
  warned :: "string list"

definition initial_globals :: globals where
  "initial_globals = \<lparr> abi_warning_already_raised = False, warned = [] \<rparr>"

text \<open>
  \<open>warnings.warn\<close> acts as the warnings filter of the process tells it to, for this
  category and place: the action \<open>error\<close> turns the warning into an exception, which
  \<open>warn\<close> raises; under every other action \<open>warn\<close> returns, whether it has printed the
  warning or not.
\<close>

datatype filter_action = Error | Ignore | Always | Default | Module | Once

definition warnings_warn :: "filter_action \<Rightarrow> string \<Rightarrow> globals \<Rightarrow> (exn + unit) \<times> globals" where
  "warnings_warn action message g =
     (if action = Error
      then (Inl (UserWarning message), g\<lparr> warned := warned g @ [message] \<rparr>)
      else (Inr (), g\<lparr> warned := warned g @ [message] \<rparr>))"

text \<open>An instance of \<open>LazySO\<close>: its two attributes.\<close>

record 'lib LazySO =
  relative_path :: string
  ops_cached :: "'lib option"

definition LazySO_init :: "string \<Rightarrow> 'lib LazySO" where
  "LazySO_init p = \<lparr> relative_path = p, ops_cached = None \<rparr>"

definition abi_warning_message :: "string \<Rightarrow> string" where
  "abi_warning_message user_version =
     ''You are currently using TensorFlow '' @ user_version @ '' and ''
     @ ''trying to load a KerasCV custom op.'' @ [CHR 0x0A]
     @ ''KerasCV has compiled its custom ops against TensorFlow ''
     @ TF_VERSION_FOR_ABI_COMPATIBILITY @ '', and there are no ''
     @ ''compatibility guarantees between the two versions.'' @ [CHR 0x0A]
     @ ''This means that you might get segfaults when loading the custom ''
     @ ''op, or other kind of low-level errors.'' @ [CHR 0x0A]
     @ ''If you do, do not file an issue on Github. ''
     @ ''This is a known limitation.''"

text \<open>
  The flag is set after \<open>warnings.warn\<close> has returned; when \<open>warn\<close> raises, the method ends
  there and the flag stays as it was.
\<close>

definition display_warning_if_incompatible ::
  "'lib tf_module \<Rightarrow> filter_action \<Rightarrow> globals \<Rightarrow> (exn + unit) \<times> globals" where
  "display_warning_if_incompatible tf action g =
     (if abi_warning_already_raised g \<or> abi_is_compatible tf then (Inr (), g)
      else
        (case warnings_warn action (abi_warning_message (tf_version tf)) g of
           (Inl e, g') \<Rightarrow> (Inl e, g')
         | (Inr u, g') \<Rightarrow> (Inr (), g'\<lparr> abi_warning_already_raised := True \<rparr>)))"

text \<open>
  The property \<open>ops\<close>.  The result is the value returned or the exception raised, with
  the instance and the module state as the access leaves them.
\<close>

definition ops ::
  "'lib tf_module \<Rightarrow> loader_env \<Rightarrow> filter_action \<Rightarrow> 'lib LazySO \<Rightarrow> globals
     \<Rightarrow> (exn + 'lib) \<times> 'lib LazySO \<times> globals" where
  "ops tf E action self g =
     (case ops_cached self of
        None \<Rightarrow>
          (case display_warning_if_incompatible tf action g of
             (Inl e, g') \<Rightarrow> (Inl e, self, g')
           | (Inr u, g') \<Rightarrow>
               (case get_path_to_datafile E (relative_path self) of
                  Inl e \<Rightarrow> (Inl e, self, g')
                | Inr p \<Rightarrow>
                    (case load_op_library tf p of
                       Inl e \<Rightarrow> (Inl e, self, g')
                     | Inr lib \<Rightarrow> (Inr lib, self\<lparr> ops_cached := Some lib \<rparr>, g'))))
      | Some lib \<Rightarrow> (Inr lib, self, g))"

text \<open>
  A process creates instances and reads their \<open>ops\<close> in any order, while the environment,
  the filesystem and the warnings filter may change between two steps.  The instances
  live in a list and are named by their position; an access names an instance that has
  been created.
\<close>

datatype action = Create string | Access nat

fun step ::
  "'lib tf_module \<Rightarrow> loader_env \<times> filter_action \<times> action \<Rightarrow> 'lib LazySO list \<times> globals
     \<Rightarrow> 'lib LazySO list \<times> globals" where
  "step tf (E, act, Create p) (heap, g) = (heap @ [LazySO_init p], g)"
| "step tf (E, act, Access i) (heap, g) =
     (if i < length heap
      then (case ops tf E act (heap ! i) g of (r, self', g') \<Rightarrow> (heap[i := self'], g'))
      else (heap, g))"

fun run ::
  "'lib tf_module \<Rightarrow> (loader_env \<times> filter_action \<times> action) list
     \<Rightarrow> 'lib LazySO list \<times> globals \<Rightarrow> 'lib LazySO list \<times> globals" where
  "run tf [] s = s"
| "run tf (a # as) s = run tf as (step tf a s)"

subsection \<open>A concrete installation, for evaluation\<close>

text \<open>
  The module lives in \<open>/ws/keras_cv/src/utils\<close>, the override root is \<open>/ovr\<close>, and
  \<open>foo.so\<close> exists both under the override root and under the project root, and
  \<open>bar.so\<close> only in the build output.
\<close>

definition example_env :: loader_env where
  "example_env =
     \<lparr> module_file = ''/ws/keras_cv/src/utils/resource_loader.py'',
       environ = [''KERAS_CV_DATA_ROOT'' \<mapsto> ''/ovr''],
       path_exists =
         (\<lambda>p. p = ''/ovr/foo.so'' \<or> p = ''/ws/keras_cv/src/foo.so''
               \<or> p = ''/ws/bazel-bin/keras_cv/src/bar.so'') \<rparr>"

text \<open>A TensorFlow whose version does not start with \<open>2.17\<close>; a library is named by its path.\<close>

definition example_tf :: "string tf_module" where
  "example_tf = \<lparr> tf_version = ''2.16.1'', load_op_library = (\<lambda>p. Inr p) \<rparr>"

definition example_actions :: "filter_action \<Rightarrow> (loader_env \<times> filter_action \<times> action) list" where
  "example_actions act =
     [(example_env, act, Create ''foo.so''), (example_env, act, Create ''bar.so''),
      (example_env, act, Access 0), (example_env, act, Access 1),
      (example_env, act, Access 0)]"

section \<open>\<open>pip_build.py\<close>\<close>

subsection \<open>The pattern \<open>__version__\s*=\s*["'](.+?)["']\<close>\<close>

text \<open>
  The script uses one regular expression, with \<open>re.search\<close> and with \<open>re.sub\<close>.  Its
  matcher is written out atom by atom.  For a \<open>str\<close> pattern \<open>\s\<close> matches the Unicode
  white space; below code point 256 these are the characters 9 to 13, 28 to 32, 133 and
  160.  The dot matches every character but the line feed.
\<close>

definition is_space :: "char \<Rightarrow> bool" where
  "is_space c = ((of_char c :: nat) \<in> set [9, 10, 11, 12, 13, 28, 29, 30, 31, 32, 133, 160])"

definition is_quote :: "char \<Rightarrow> bool" where
  "is_quote c = (c = CHR 0x22 \<or> c = CHR 0x27)"

definition line_feed :: char where
  "line_feed = CHR 0x0A"

text \<open>
  \<open>(.+?)["']\<close> after the first character of the group: the lazy repetition tries the
  closing quote before it takes one more character, so the group ends before the first
  quote; a line feed or the end of the text before that quote makes the attempt fail.
  The result is the group and the text after the closing quote.
\<close>

fun lazy_group :: "string \<Rightarrow> string \<Rightarrow> (string \<times> string) option" where
  "lazy_group g [] = None"
| "lazy_group g (c # cs) =
     (if is_quote c then Some (g, cs)
      else if c = line_feed then None
      else lazy_group (g @ [c]) cs)"

text \<open>
  One attempt at the start of \<open>s\<close>.  The greedy \<open>\s*\<close> never has to give a character
  back, since neither \<open>=\<close> nor a quote is white space.  The first character of the group
  may be any character but the line feed, a quote included.
\<close>

definition match_here :: "string \<Rightarrow> (string \<times> string) option" where
  "match_here s =
     (if prefix ''__version__'' s then
        (case dropWhile is_space (drop (length ''__version__'') s) of
           [] \<Rightarrow> None
         | e # s2 \<Rightarrow>
             if e = CHR ''='' then
               (case dropWhile is_space s2 of
                  [] \<Rightarrow> None
                | q # s4 \<Rightarrow>
                    if is_quote q then
                      (case s4 of
                         [] \<Rightarrow> None
                       | c # s5 \<Rightarrow> if c = line_feed then None else lazy_group [c] s5)
                    else None)
             else None)
      else None)"

text \<open>
  The scan of \<open>re.search\<close>: the attempts start at the positions of the text from left to
  right.  \<open>passed\<close> is the text already passed; the result is the text before the match,
  the group and the text after the match.
\<close>

fun scan :: "string \<Rightarrow> string \<Rightarrow> (string \<times> string \<times> string) option" where
  "scan passed [] =
     (case match_here [] of
        Some (g, rest) \<Rightarrow> Some (passed, g, rest)
      | None \<Rightarrow> None)"
| "scan passed (c # cs) =
     (case match_here (c # cs) of
        Some (g, rest) \<Rightarrow> Some (passed, g, rest)
      | None \<Rightarrow> scan (passed @ [c]) cs)"

definition re_search :: "string \<Rightarrow> (string \<times> string \<times> string) option" where
  "re_search content = scan [] content"

lemma lazy_group_shorter: "lazy_group g s = Some (g', rest) \<Longrightarrow> length rest < length s"
proof (induction s arbitrary: g)
  case Nil
  then show ?case by simp
next
  case (Cons c cs)
  show ?case
  proof (cases "is_quote c")
    case True
    then show ?thesis using Cons.prems by simp
  next
    case False
    then have "lazy_group (g @ [c]) cs = Some (g', rest)"
      using Cons.prems by (simp split: if_splits)
    then have "length rest < length cs" by (rule Cons.IH)
    then show ?thesis by simp
  qed
qed

lemma dropWhile_shorter: "dropWhile P xs = y # ys \<Longrightarrow> length ys < length xs"
proof -
  assume a: "dropWhile P xs = y # ys"
  have "length (dropWhile P xs) \<le> length xs" by (rule length_dropWhile_le)
  then show ?thesis by (simp add: a)
qed

lemma match_here_shorter:
  assumes "match_here s = Some (g, rest)"
  shows "length rest < length s"
proof -
  from assms obtain e s2 q s4 c s5 where
    d1: "dropWhile is_space (drop (length ''__version__'') s) = e # s2"
    and d2: "dropWhile is_space s2 = q # s4"
    and d3: "s4 = c # s5"
    and lg: "lazy_group [c] s5 = Some (g, rest)"
    by (auto simp add: match_here_def split: if_splits list.splits)
  have "length rest < length s5" using lg by (rule lazy_group_shorter)
  moreover have "length s4 < length s2" using d2 by (rule dropWhile_shorter)
  moreover have "length s2 < length (drop (length ''__version__'') s)"
    using d1 by (rule dropWhile_shorter)
  ultimately show ?thesis using d3 by simp
qed

lemma scan_shorter: "scan passed s = Some (pre, g, rest) \<Longrightarrow> length rest < length s"
proof (induction s arbitrary: passed)
  case Nil
  then show ?case by (simp add: match_here_def)
next
  case (Cons c cs)
  show ?case
  proof (cases "match_here (c # cs)")
    case None
    then have "scan (passed @ [c]) cs = Some (pre, g, rest)" using Cons.prems by simp
    then have "length rest < length cs" by (rule Cons.IH)
    then show ?thesis by simp
  next
    case (Some m)
    then have "match_here (c # cs) = Some (g, rest)"
      using Cons.prems by (cases m) simp
    then show ?thesis by (rule match_here_shorter)
  qed
qed

lemma re_search_shorter:
  "re_search s = Some (pre, g, rest) \<Longrightarrow> length rest < length s"
  unfolding re_search_def by (rule scan_shorter)

subsection \<open>The replacement template of \<open>re.sub\<close>\<close>

text \<open>
  \<open>re.sub\<close> reads its replacement string as a template: a backslash starts an escape.
  The parser below is the one of the \<open>re\<close> module for a pattern with one unnamed
  group.  Every error it raises (\<open>re.error\<close>, and \<open>IndexError\<close> for an unknown group
  name) is the value \<open>ReplError\<close>.
\<close>

datatype tpl_item = Literal char | Group nat

definition backslash :: char where
  "backslash = CHR 0x5C"

definition is_digit :: "char \<Rightarrow> bool" where
  "is_digit c = (48 \<le> (of_char c :: nat) \<and> (of_char c :: nat) \<le> 57)"

definition is_octdigit :: "char \<Rightarrow> bool" where
  "is_octdigit c = (48 \<le> (of_char c :: nat) \<and> (of_char c :: nat) \<le> 55)"

definition is_ascii_letter :: "char \<Rightarrow> bool" where
  "is_ascii_letter c =
     ((65 \<le> (of_char c :: nat) \<and> (of_char c :: nat) \<le> 90)
      \<or> (97 \<le> (of_char c :: nat) \<and> (of_char c :: nat) \<le> 122))"

definition digit_val :: "char \<Rightarrow> nat" where
  "digit_val c = of_char c - 48"

text \<open>\<open>int(ds, base)\<close> on a string of digits.\<close>

definition int_of_digits :: "nat \<Rightarrow> string \<Rightarrow> nat" where
  "int_of_digits base ds = foldl (\<lambda>n c. n * base + digit_val c) 0 ds"

text \<open>The table \<open>ESCAPES\<close>.\<close>

definition ESCAPES :: "char \<rightharpoonup> char" where
  "ESCAPES =
     [CHR ''a'' \<mapsto> CHR 0x07, CHR ''b'' \<mapsto> CHR 0x08, CHR ''f'' \<mapsto> CHR 0x0C,
      CHR ''n'' \<mapsto> CHR 0x0A, CHR ''r'' \<mapsto> CHR 0x0D, CHR ''t'' \<mapsto> CHR 0x09,
      CHR ''v'' \<mapsto> CHR 0x0B, CHR 0x5C \<mapsto> CHR 0x5C]"

definition item_cons :: "tpl_item \<Rightarrow> exn + tpl_item list \<Rightarrow> exn + tpl_item list" where
  "item_cons i r = (case r of Inl e \<Rightarrow> Inl e | Inr is \<Rightarrow> Inr (i # is))"

text \<open>\<open>addgroup\<close>: the pattern has one group, so only the references 0 and 1 are valid.\<close>

definition addgroup :: "nat \<Rightarrow> exn + tpl_item list \<Rightarrow> exn + tpl_item list" where
  "addgroup index r = (if index > 1 then Inl ReplError else item_cons (Group index) r)"

lemma tl_dropWhile_le: "length (dropWhile P xs) - Suc 0 \<le> Suc (Suc (length xs))"
  using length_dropWhile_le [of P xs] by simp

function parse_template :: "string \<Rightarrow> exn + tpl_item list" where
  "parse_template [] = Inr []"
| "parse_template (c # cs) =
     (if c \<noteq> backslash then item_cons (Literal c) (parse_template cs)
      else
        (case cs of
           [] \<Rightarrow> Inl ReplError
         | d # ds \<Rightarrow>
             if d = CHR ''g'' then
               (case ds of
                  [] \<Rightarrow> Inl ReplError
                | l # ns \<Rightarrow>
                    if l \<noteq> CHR ''<'' then Inl ReplError
                    else if dropWhile (\<lambda>x. x \<noteq> CHR ''>'') ns = [] then Inl ReplError
                    else if takeWhile (\<lambda>x. x \<noteq> CHR ''>'') ns = [] then Inl ReplError
                    else if \<not> list_all is_digit (takeWhile (\<lambda>x. x \<noteq> CHR ''>'') ns)
                      then Inl ReplError
                    else addgroup (int_of_digits 10 (takeWhile (\<lambda>x. x \<noteq> CHR ''>'') ns))
                           (parse_template (tl (dropWhile (\<lambda>x. x \<noteq> CHR ''>'') ns))))
             else if d = CHR ''0'' then
               item_cons
                 (Literal (char_of (int_of_digits 8 (takeWhile is_octdigit (take 2 ds)) mod 256)))
                 (parse_template (drop (length (takeWhile is_octdigit (take 2 ds))) ds))
             else if is_digit d then
               (case ds of
                  [] \<Rightarrow> addgroup (digit_val d) (parse_template ds)
                | e # es \<Rightarrow>
                    if is_digit e then
                      (case es of
                         [] \<Rightarrow> addgroup (int_of_digits 10 [d, e]) (parse_template es)
                       | f # fs \<Rightarrow>
                           if is_octdigit d \<and> is_octdigit e \<and> is_octdigit f then
                             (if int_of_digits 8 [d, e, f] > 255 then Inl ReplError
                              else item_cons (Literal (char_of (int_of_digits 8 [d, e, f])))
                                     (parse_template fs))
                           else addgroup (int_of_digits 10 [d, e]) (parse_template es))
                    else addgroup (digit_val d) (parse_template ds))
             else
               (case ESCAPES d of
                  Some x \<Rightarrow> item_cons (Literal x) (parse_template ds)
                | None \<Rightarrow>
                    if is_ascii_letter d then Inl ReplError
                    else item_cons (Literal backslash)
                           (item_cons (Literal d) (parse_template ds)))))"
  by pat_completeness auto
termination
  by (relation "measure length") (auto simp add: less_Suc_eq_le tl_dropWhile_le)

text \<open>
  The text one match is replaced by: the literals as they are, reference 0 the whole
  match, reference 1 the group.
\<close>

fun expand :: "tpl_item list \<Rightarrow> string \<Rightarrow> string \<Rightarrow> string" where
  "expand [] whole g = []"
| "expand (Literal c # is) whole g = c # expand is whole g"
| "expand (Group n # is) whole g = (if n = 0 then whole else g) @ expand is whole g"

text \<open>
  The substitution replaces every match, from left to right; the scan goes on after the
  end of a match.
\<close>

function sub_loop :: "tpl_item list \<Rightarrow> string \<Rightarrow> string" where
  "sub_loop items s =
     (case re_search s of
        None \<Rightarrow> s
      | Some (pre, g, rest) \<Rightarrow>
          pre @ expand items (take (length s - length pre - length rest) (drop (length pre) s)) g
            @ sub_loop items rest)"
  by pat_completeness auto
termination
  by (relation "measure (\<lambda>(items, s). length s)") (auto dest: re_search_shorter)

definition re_sub :: "string \<Rightarrow> string \<Rightarrow> exn + string" where
  "re_sub repl content =
     (case parse_template repl of
        Inl e \<Rightarrow> Inl e
      | Inr items \<Rightarrow> Inr (sub_loop items content))"

subsection \<open>Files, time and output\<close>

text \<open>
  A \<open>pathlib.Path\<close> is the list of the components of an absolute path; \<open>resolve\<close>
  returns its argument.  The filesystem is an association list from paths to nodes, in
  the order in which a directory scan lists them; a regular file carries its bytes and
  its modification time, a directory its modification time.  The only symbolic links
  are broken ones: a \<open>BrokenLink\<close> is a link whose target and whose target's directory
  do not exist, so the entry is listed by a scan of its directory, while following it,
  to test existence, to stat, to read or to write, finds nothing.  The root directory
  always exists.
\<close>

type_synonym path = "string list"

datatype node = File string int | Dir int | BrokenLink

type_synonym fsys = "(path \<times> node) list"

definition resolve :: "path \<Rightarrow> path" where
  "resolve p = p"

definition path_name :: "path \<Rightarrow> string" where
  "path_name p = (if p = [] then [] else last p)"

definition parent :: "path \<Rightarrow> path" where
  "parent p = butlast p"

definition str_of_path :: "path \<Rightarrow> string" where
  "str_of_path p = ''/'' @ sep_join ''/'' p"

definition node_at :: "fsys \<Rightarrow> path \<Rightarrow> node option" where
  "node_at f p = (if p = [] then Some (Dir 0) else map_of f p)"

definition exists_path :: "fsys \<Rightarrow> path \<Rightarrow> bool" where
  "exists_path f p =
     (case node_at f p of
        None \<Rightarrow> False
      | Some BrokenLink \<Rightarrow> False
      | Some n \<Rightarrow> True)"

definition is_dir :: "fsys \<Rightarrow> path \<Rightarrow> bool" where
  "is_dir f p = (case node_at f p of Some (Dir t) \<Rightarrow> True | _ \<Rightarrow> False)"

text \<open>The bytes of a regular file, if the path names one.\<close>

definition file_content :: "fsys \<Rightarrow> path \<Rightarrow> string option" where
  "file_content f p = (case node_at f p of Some (File c t) \<Rightarrow> Some c | _ \<Rightarrow> None)"

text \<open>
  The state a run of the script works on: the filesystem, the clock, and the lines
  printed so far.
\<close>

record world =
  fs :: fsys
  clock :: int
  stdout :: "string list"

text \<open>
  A statement sequence that may raise: it returns a value or an exception, and the state
  it leaves.  An exception ends the sequence; \<open>try_finally\<close> runs the \<open>finally\<close> block on
  every outcome of the \<open>try\<close> block, and an exception of the \<open>finally\<close> block replaces
  that outcome.
\<close>

type_synonym 'a io = "world \<Rightarrow> (exn + 'a) \<times> world"

definition io_return :: "'a \<Rightarrow> 'a io" where
  "io_return x = (\<lambda>w. (Inr x, w))"

definition io_raise :: "exn \<Rightarrow> 'a io" where
  "io_raise e = (\<lambda>w. (Inl e, w))"

definition io_bind :: "'a io \<Rightarrow> ('a \<Rightarrow> 'b io) \<Rightarrow> 'b io" where
  "io_bind m f =
     (\<lambda>w. case m w of
            (Inl e, w') \<Rightarrow> (Inl e, w')
          | (Inr x, w') \<Rightarrow> f x w')"

definition io_lift :: "exn + 'a \<Rightarrow> 'a io" where
  "io_lift r = (\<lambda>w. (r, w))"

definition try_finally :: "'a io \<Rightarrow> unit io \<Rightarrow> 'a io" where
  "try_finally m fin =
     (\<lambda>w. case m w of
            (r, w1) \<Rightarrow>
              (case fin w1 of
                 (Inl e, w2) \<Rightarrow> (Inl e, w2)
               | (Inr u, w2) \<Rightarrow> (r, w2)))"

definition print :: "string \<Rightarrow> unit io" where
  "print line = (\<lambda>w. (Inr (), w\<lparr> stdout := stdout w @ [line] \<rparr>))"

text \<open>Opening a path for writing and storing the bytes \<open>b\<close> there.\<close>

definition store_file :: "path \<Rightarrow> string \<Rightarrow> int \<Rightarrow> fsys \<Rightarrow> exn + fsys" where
  "store_file p b t f =
     (case node_at f p of
        Some (Dir t') \<Rightarrow> Inl IsADirectoryError
      | Some BrokenLink \<Rightarrow> Inl (FileNotFoundError (str_of_path p))
      | Some (File b' t') \<Rightarrow> Inr (AList.update p (File b t) f)
      | None \<Rightarrow>
          if is_dir f (parent p) then Inr (AList.update p (File b t) f)
          else if exists_path f (parent p) then Inl NotADirectoryError
          else Inl (FileNotFoundError (str_of_path p)))"

text \<open>
  \<open>Path.mkdir(parents=True, exist_ok=True)\<close>: the directory and its missing ancestors
  are created; a regular file in the way is an error.
\<close>

fun make_dirs :: "path list \<Rightarrow> int \<Rightarrow> fsys \<Rightarrow> exn + fsys" where
  "make_dirs [] t f = Inr f"
| "make_dirs (q # qs) t f =
     (case node_at f q of
        Some (Dir t') \<Rightarrow> make_dirs qs t f
      | Some (File c' t') \<Rightarrow> Inl (if qs = [] then FileExistsError else NotADirectoryError)
      | Some BrokenLink \<Rightarrow> Inl FileExistsError
      | None \<Rightarrow> make_dirs qs t (AList.update q (Dir t) f))"

definition mkdir :: "path \<Rightarrow> unit io" where
  "mkdir p =
     (\<lambda>w. case make_dirs (tl (prefixes p)) (clock w) (fs w) of
            Inl e \<Rightarrow> (Inl e, w)
          | Inr f \<Rightarrow> (Inr (), w\<lparr> fs := f \<rparr>))"

text \<open>
  \<open>shutil.copy2\<close>: into a directory the file keeps its name; the content and the
  modification time are those of the source.
\<close>

definition copy2 :: "path \<Rightarrow> path \<Rightarrow> unit io" where
  "copy2 src dst =
     (\<lambda>w. let dst' = (if is_dir (fs w) dst then dst @ [path_name src] else dst)
          in if src = dst' then (Inl SameFileError, w)
             else
               (case node_at (fs w) src of
                  None \<Rightarrow> (Inl (FileNotFoundError (str_of_path src)), w)
                | Some BrokenLink \<Rightarrow> (Inl (FileNotFoundError (str_of_path src)), w)
                | Some (Dir t) \<Rightarrow> (Inl IsADirectoryError, w)
                | Some (File c t) \<Rightarrow>
                    (case store_file dst' c t (fs w) of
                       Inl e \<Rightarrow> (Inl e, w)
                     | Inr f \<Rightarrow> (Inr (), w\<lparr> fs := f \<rparr>))))"

text \<open>
  \<open>Path.glob("*.whl")\<close>: the entries of the directory whose name ends in \<open>.whl\<close>, in
  the order of the directory scan, broken links among them.  \<open>Path.stat().st_mtime\<close>
  follows a link and raises when there is nothing behind it.
\<close>

definition glob_whl :: "fsys \<Rightarrow> path \<Rightarrow> path list" where
  "glob_whl f d =
     (if is_dir f d
      then filter (\<lambda>p. p \<noteq> [] \<and> butlast p = d \<and> suffix ''.whl'' (last p)) (map fst f)
      else [])"

definition st_mtime :: "fsys \<Rightarrow> path \<Rightarrow> exn + int" where
  "st_mtime f p =
     (case node_at f p of
        None \<Rightarrow> Inl (FileNotFoundError (str_of_path p))
      | Some BrokenLink \<Rightarrow> Inl (FileNotFoundError (str_of_path p))
      | Some (File c t) \<Rightarrow> Inr t
      | Some (Dir t) \<Rightarrow> Inr t)"

text \<open>
  The local time as \<open>datetime.now()\<close> gives it, with the fields that the format
  \<open>%Y%m%d%H\<close> prints: the year as a decimal number, and the month, the day and the
  hour as decimal numbers padded with a zero to two digits.
\<close>

record datetime =
  year :: nat
  month :: nat
  day :: nat
  hour :: nat

fun decimal :: "nat \<Rightarrow> string" where
  "decimal n =
     (if n < 10 then [char_of (48 + n)]
      else decimal (n div 10) @ [char_of (48 + n mod 10)])"

definition zero_pad :: "nat \<Rightarrow> nat \<Rightarrow> string" where
  "zero_pad width n = replicate (width - length (decimal n)) CHR ''0'' @ decimal n"

definition strftime_YmdH :: "datetime \<Rightarrow> string" where
  "strftime_YmdH dt =
     decimal (year dt) @ zero_pad 2 (month dt) @ zero_pad 2 (day dt) @ zero_pad 2 (hour dt)"

definition str_of_int :: "int \<Rightarrow> string" where
  "str_of_int i = (if i < 0 then CHR ''-'' # decimal (nat (- i)) else decimal (nat i))"

text \<open>
  The surroundings of the script.  \<open>subprocess\<close> is what running a command does: given
  the argument vector, the environment (\<open>None\<close>: inherited) and the working directory, it
  changes the filesystem and the clock and either returns an exit status or raises
  (the program cannot be started, the user interrupts).  \<open>os_environ\<close> is \<open>os.environ\<close>,
  and \<open>localtime\<close> turns the clock into the local date and hour.  \<open>decode\<close> and \<open>encode\<close>
  are the codec of the locale, which \<open>read_text\<close> and \<open>write_text\<close> use when no encoding
  is given: from the bytes of a file to text and back, \<open>None\<close> where the codec fails.
\<close>

datatype proc_result = Returncode int | Raised exn

record sys =
  subprocess ::
    "string list \<Rightarrow> (string \<rightharpoonup> string) option \<Rightarrow> string option
       \<Rightarrow> fsys \<times> int \<Rightarrow> proc_result \<times> fsys \<times> int"
  os_environ :: "string \<rightharpoonup> string"
  localtime :: "int \<Rightarrow> datetime"
  decode :: "string \<Rightarrow> string option"
  encode :: "string \<Rightarrow> string option"

text \<open>
  Reading in text mode translates the line ends: a carriage return with the line feed
  after it, and a carriage return alone, become one line feed.  Writing in text mode on
  POSIX leaves the text as it is.
\<close>

fun translate_newlines :: "string \<Rightarrow> string" where
  "translate_newlines [] = []"
| "translate_newlines [c] = [if c = CHR 0x0D then CHR 0x0A else c]"
| "translate_newlines (c # d # cs) =
     (if c = CHR 0x0D
      then CHR 0x0A # (if d = CHR 0x0A then translate_newlines cs
                       else translate_newlines (d # cs))
      else c # translate_newlines (d # cs))"

text \<open>
  \<open>Path.read_text\<close> decodes the bytes of the file, raising \<open>UnicodeDecodeError\<close> where the
  codec fails, and translates the line ends.
\<close>

definition read_text :: "sys \<Rightarrow> path \<Rightarrow> string io" where
  "read_text S p =
     (\<lambda>w. case node_at (fs w) p of
            None \<Rightarrow> (Inl (FileNotFoundError (str_of_path p)), w)
          | Some BrokenLink \<Rightarrow> (Inl (FileNotFoundError (str_of_path p)), w)
          | Some (Dir t) \<Rightarrow> (Inl IsADirectoryError, w)
          | Some (File b t) \<Rightarrow>
              (case decode S b of
                 None \<Rightarrow> (Inl UnicodeDecodeError, w)
               | Some text \<Rightarrow> (Inr (translate_newlines text), w)))"

text \<open>
  \<open>Path.write_text\<close> opens the file, which empties it, and writes the encoded text; where
  the codec fails it raises \<open>UnicodeEncodeError\<close> and the file stays empty.
\<close>

definition write_text :: "sys \<Rightarrow> path \<Rightarrow> string \<Rightarrow> unit io" where
  "write_text S p text =
     (\<lambda>w. case encode S text of
            Some b \<Rightarrow>
              (case store_file p b (clock w) (fs w) of
                 Inl e \<Rightarrow> (Inl e, w)
               | Inr f \<Rightarrow> (Inr (), w\<lparr> fs := f \<rparr>))
          | None \<Rightarrow>
              (case store_file p [] (clock w) (fs w) of
                 Inl e \<Rightarrow> (Inl e, w)
               | Inr f \<Rightarrow> (Inl UnicodeEncodeError, w\<lparr> fs := f \<rparr>)))"

definition datetime_now :: "sys \<Rightarrow> datetime io" where
  "datetime_now S = (\<lambda>w. (Inr (localtime S (clock w)), w))"

text \<open>\<open>subprocess.run(cmd, check=True, env=env, cwd=cwd)\<close>\<close>

definition subprocess_run ::
  "sys \<Rightarrow> string list \<Rightarrow> (string \<rightharpoonup> string) option \<Rightarrow> string option \<Rightarrow> unit io" where
  "subprocess_run S cmd env cwd =
     (\<lambda>w. case subprocess S cmd env cwd (fs w, clock w) of
            (Returncode rc, f, t) \<Rightarrow>
              if rc \<noteq> 0 then (Inl (CalledProcessError rc), w\<lparr> fs := f, clock := t \<rparr>)
              else (Inr (), w\<lparr> fs := f, clock := t \<rparr>)
          | (Raised e, f, t) \<Rightarrow> (Inl e, w\<lparr> fs := f, clock := t \<rparr>))"

subsection \<open>The functions of the script\<close>

definition package :: string where
  "package = ''keras_cv''"

definition dist_directory :: string where
  "dist_directory = ''dist''"

definition wheels_directory :: string where
  "wheels_directory = ''wheels''"

definition run_command ::
  "sys \<Rightarrow> string list \<Rightarrow> (string \<rightharpoonup> string) option \<Rightarrow> string option \<Rightarrow> unit io" where
  "run_command S cmd env cwd =
     io_bind (print (''Running: '' @ sep_join '' '' cmd))
       (\<lambda>u. subprocess_run S cmd env cwd)"

definition parse_version :: "sys \<Rightarrow> path \<Rightarrow> string io" where
  "parse_version S version_file =
     io_bind (read_text S version_file)
       (\<lambda>content.
          case re_search content of
            None \<Rightarrow> io_raise (ValueError ''Unable to parse __version__ from version_utils.py'')
          | Some (pre, g, rest) \<Rightarrow> io_return g)"

text \<open>
  The context manager takes the body of the \<open>with\<close> statement as an argument and hands
  it the yielded version.  The reads and the parse stand before the \<open>try\<close>; the
  nightly rewrite, the \<open>yield\<close> and with it the body stand inside.
\<close>

definition nightly_overrides :: "sys \<Rightarrow> path \<Rightarrow> bool \<Rightarrow> (string \<Rightarrow> 'a io) \<Rightarrow> 'a io" where
  "nightly_overrides S root is_nightly body =
     (let version_file = root @ [package, ''src'', ''version_utils.py''];
          setup_file = root @ [''setup.py'']
      in
      io_bind (read_text S version_file) (\<lambda>original_version_content.
      io_bind (read_text S setup_file) (\<lambda>original_setup_content.
      io_bind (parse_version S version_file) (\<lambda>version.
        try_finally
          (io_bind
             (if is_nightly then
                io_bind (datetime_now S) (\<lambda>now.
                  let timestamp = strftime_YmdH now;
                      updated_version = version @ ''.dev'' @ timestamp
                  in
                  io_bind
                    (io_lift
                       (re_sub (''__version__ = '' @ [CHR 0x22] @ updated_version @ [CHR 0x22])
                          original_version_content))
                    (\<lambda>new_version_content.
                  io_bind (write_text S version_file new_version_content) (\<lambda>u.
                  io_bind
                    (write_text S setup_file
                       (str_replace (''name='' @ [CHR 0x22] @ ''keras-cv'' @ [CHR 0x22])
                          (''name='' @ [CHR 0x22] @ ''keras-cv-nightly'' @ [CHR 0x22])
                          original_setup_content))
                    (\<lambda>u.
                  io_return updated_version))))
              else io_return version)
             body)
          (if is_nightly then
             io_bind (write_text S version_file original_version_content)
               (\<lambda>u. write_text S setup_file original_setup_content)
           else io_return ())))))"

text \<open>
  \<open>sorted(..., key=..., reverse=True)\<close> computes the key of every element first and is
  stable: elements with equal keys keep their order.  The \<open>for\<close> loop returns the first
  wheel whose name contains the version as a substring.
\<close>

fun stat_all :: "fsys \<Rightarrow> path list \<Rightarrow> exn + (int \<times> path) list" where
  "stat_all f [] = Inr []"
| "stat_all f (p # ps) =
     (case st_mtime f p of
        Inl e \<Rightarrow> Inl e
      | Inr t \<Rightarrow>
          (case stat_all f ps of
             Inl e \<Rightarrow> Inl e
           | Inr r \<Rightarrow> Inr ((t, p) # r)))"

fun first_containing :: "string \<Rightarrow> path list \<Rightarrow> path option" where
  "first_containing version [] = None"
| "first_containing version (wheel # wheels) =
     (if sublist version (path_name wheel) then Some wheel
      else first_containing version wheels)"

definition locate_wheel :: "fsys \<Rightarrow> path \<Rightarrow> string \<Rightarrow> exn + path option" where
  "locate_wheel f wheels_path version =
     (if \<not> exists_path f wheels_path then Inr None
      else
        (case stat_all f (glob_whl f wheels_path) of
           Inl e \<Rightarrow> Inl e
         | Inr keyed \<Rightarrow>
             let wheels = map snd (sort_key (\<lambda>(t, p). - t) keyed)
             in (case first_containing version wheels of
                   Some wheel \<Rightarrow> Inr (Some wheel)
                 | None \<Rightarrow> Inr (if wheels \<noteq> [] then Some (hd wheels) else None))))"

text \<open>The body of the \<open>with\<close> statement in \<open>build\<close>: the three commands.\<close>

definition build_commands :: "sys \<Rightarrow> path \<Rightarrow> string \<Rightarrow> string io" where
  "build_commands S root_path version =
     (let cwd = str_of_path root_path
      in
      io_bind (run_command S [''python3'', ''build_deps/configure.py''] None (Some cwd)) (\<lambda>u.
      io_bind (run_command S [''bazel'', ''build'', ''build_pip_pkg''] None (Some cwd)) (\<lambda>u.
      io_bind
        (run_command S
           [str_of_path (root_path @ [''bazel-bin'', ''build_pip_pkg'']), wheels_directory]
           (Some ((os_environ S)(''BUILD_WITH_CUSTOM_OPS'' \<mapsto> ''true'')))
           (Some cwd))
        (\<lambda>u.
      io_return version))))"

definition build :: "sys \<Rightarrow> path \<Rightarrow> bool \<Rightarrow> path option io" where
  "build S root_path0 is_nightly =
     (let root_path = resolve root_path0;
          wheels_path = root_path @ [wheels_directory]
      in
      io_bind (mkdir wheels_path) (\<lambda>u.
      io_bind (nightly_overrides S root_path is_nightly (build_commands S root_path)) (\<lambda>version.
      io_bind (\<lambda>w. (locate_wheel (fs w) wheels_path version, w)) (\<lambda>wheel.
        case wheel of
          None \<Rightarrow> io_bind (print ''Build failed. No wheel found.'') (\<lambda>u. io_return None)
        | Some wheel \<Rightarrow>
            (let dist_path = root_path @ [dist_directory];
                 target = dist_path @ [path_name wheel]
             in
             io_bind (mkdir dist_path) (\<lambda>u.
             io_bind (copy2 wheel target) (\<lambda>u.
             io_bind
               (print (''Build successful. Wheel file available at ''
                         @ str_of_path (resolve target)))
               (\<lambda>u.
             io_return (Some (resolve target))))))))))"

definition install_whl :: "sys \<Rightarrow> path \<Rightarrow> unit io" where
  "install_whl S whl_path =
     run_command S
       [''pip3'', ''install'', ''--force-reinstall'', ''--no-dependencies'', str_of_path whl_path]
       None None"

text \<open>
  The entry point.  \<open>script_dir\<close> is \<open>pathlib.Path(__file__).parent\<close>.  The run ends by
  reaching the end of the script, by \<open>sys.exit\<close> with a status, or by an exception that
  nothing catches: the interpreter then prints a traceback and exits with status 1.
\<close>

record args =
  install :: bool
  nightly :: bool

datatype ending = Completed | SystemExit int | Uncaught exn

definition main :: "sys \<Rightarrow> path \<Rightarrow> args \<Rightarrow> world \<Rightarrow> ending \<times> world" where
  "main S script_dir a w =
     (let root = resolve script_dir
      in case build S root (nightly a) w of
           (Inl (CalledProcessError returncode), w1) \<Rightarrow>
             (case print (''Command failed with exit code '' @ str_of_int returncode) w1 of
                (r, w2) \<Rightarrow> (SystemExit returncode, w2))
         | (Inl e, w1) \<Rightarrow> (Uncaught e, w1)
         | (Inr wheel_path, w1) \<Rightarrow>
             (case wheel_path of
                Some whl \<Rightarrow>
                  if install a then
                    (case install_whl S whl w1 of
                       (Inl e, w2) \<Rightarrow> (Uncaught e, w2)
                     | (Inr u, w2) \<Rightarrow> (Completed, w2))
                  else (Completed, w1)
              | None \<Rightarrow> (Completed, w1)))"

subsection \<open>A concrete repository, for evaluation\<close>

text \<open>
  The repository is \<open>/repo\<close>.  The version file declares \<open>1.2.3\<close> after a comment line;
  \<open>setup.py\<close> names the package \<open>keras-cv\<close>.
\<close>

definition example_root :: path where
  "example_root = [''repo'']"

definition example_version_file :: path where
  "example_version_file = [''repo'', ''keras_cv'', ''src'', ''version_utils.py'']"

definition example_setup_file :: path where
  "example_setup_file = [''repo'', ''setup.py'']"

definition example_version_content :: string where
  "example_version_content =
     ''# version'' @ [CHR 0x0A] @ ''__version__ = '' @ [CHR 0x22] @ ''1.2.3'' @ [CHR 0x22]
       @ [CHR 0x0A]"

definition example_setup_content :: string where
  "example_setup_content =
     ''setup(name='' @ [CHR 0x22] @ ''keras-cv'' @ [CHR 0x22] @ '')'' @ [CHR 0x0A]"

definition example_fs :: "string \<Rightarrow> fsys" where
  "example_fs version_content =
     [([''repo''], Dir 1),
      ([''repo'', ''keras_cv''], Dir 1),
      ([''repo'', ''keras_cv'', ''src''], Dir 1),
      (example_version_file, File version_content 1),
      (example_setup_file, File example_setup_content 1)]"

definition example_world :: "string \<Rightarrow> world" where
  "example_world version_content =
     \<lparr> fs = example_fs version_content, clock = 10, stdout = [] \<rparr>"

text \<open>
  The tools of the example.  Every command takes one tick of the clock.  \<open>bazel\<close> exits
  with \<open>bazel_status\<close> and \<open>pip3\<close> with \<open>pip_status\<close>.  When \<open>packs\<close> holds, the
  packaging command leaves a wheel whose content is the version file followed by
  \<open>setup.py\<close>, as the command found them; otherwise it leaves nothing.
\<close>

definition example_subprocess ::
  "int \<Rightarrow> int \<Rightarrow> bool \<Rightarrow> string list \<Rightarrow> (string \<rightharpoonup> string) option \<Rightarrow> string option
     \<Rightarrow> fsys \<times> int \<Rightarrow> proc_result \<times> fsys \<times> int" where
  "example_subprocess bazel_status pip_status packs cmd env cwd m =
     (case m of
        (f, t) \<Rightarrow>
          if cmd = [''python3'', ''build_deps/configure.py''] then (Returncode 0, f, t + 1)
          else if cmd = [''bazel'', ''build'', ''build_pip_pkg'']
            then (Returncode bazel_status, f, t + 1)
          else if cmd = [''/repo/bazel-bin/build_pip_pkg'', ''wheels''] then
            (Returncode 0,
             if packs then
               AList.update [''repo'', ''wheels'', ''keras_cv.whl'']
                 (File ((case file_content f example_version_file of None \<Rightarrow> [] | Some c \<Rightarrow> c)
                        @ (case file_content f example_setup_file of None \<Rightarrow> [] | Some c \<Rightarrow> c))
                    t)
                 f
             else f,
             t + 1)
          else (Returncode pip_status, f, t + 1))"

text \<open>
  The codec of the example is ASCII: a text of code points below 128 is its own
  encoding, and the codec fails on every other character.
\<close>

definition ascii_codec :: "string \<Rightarrow> string option" where
  "ascii_codec b = (if list_all (\<lambda>c. (of_char c :: nat) < 128) b then Some b else None)"

definition example_sys :: "int \<Rightarrow> int \<Rightarrow> bool \<Rightarrow> sys" where
  "example_sys bazel_status pip_status packs =
     \<lparr> subprocess = example_subprocess bazel_status pip_status packs,
       os_environ = Map.empty,
       localtime = (\<lambda>t. \<lparr> year = 2026, month = 11, day = 4, hour = 7 \<rparr>),
       decode = ascii_codec,
       encode = ascii_codec \<rparr>"

text \<open>
  A wheels directory that holds \<open>pkg-1.2.3.whl\<close> and \<open>pkg-1.2.3.dev99.whl\<close>, with the
  given modification times.
\<close>

definition two_wheels_fs :: "int \<Rightarrow> int \<Rightarrow> fsys" where
  "two_wheels_fs t_release t_dev =
     [([''repo''], Dir 1),
      ([''repo'', ''wheels''], Dir 1),
      ([''repo'', ''wheels'', ''pkg-1.2.3.whl''], File ''release'' t_release),
      ([''repo'', ''wheels'', ''pkg-1.2.3.dev99.whl''], File ''nightly'' t_dev)]"

text \<open>
  Version files for evaluation: one whose version holds a carriage return, one that ends
  its line with a carriage return and a line feed, and one whose version holds a
  backslash followed by the letter n.
\<close>

definition cr_version_content :: string where
  "cr_version_content =
     ''__version__ = '' @ [CHR 0x22] @ ''1'' @ [CHR 0x0D] @ ''2'' @ [CHR 0x22]"

definition crlf_version_content :: string where
  "crlf_version_content =
     ''__version__ = '' @ [CHR 0x22] @ ''1.2.3'' @ [CHR 0x22] @ [CHR 0x0D, CHR 0x0A]"


text \<open>A wheels directory that holds regular files of the given names and times.\<close>

definition wheels_fs :: "(string \<times> int) list \<Rightarrow> fsys" where
  "wheels_fs entries =
     [([''repo''], Dir 1), ([''repo'', ''wheels''], Dir 1)]
     @ map (\<lambda>(n, t). ([''repo'', ''wheels'', n], File [] t)) entries"

subsection \<open>The language of the pattern\<close>

text \<open>
  What the pattern means as a regular expression, apart from any matching strategy: a
  text \<open>m\<close> is a match with group \<open>g\<close> when it is the keyword, white space, the equals
  sign, white space, a quote, a non-empty group without a line feed, and a quote.  A
  match occurs in a text at position \<open>k\<close> when the text from \<open>k\<close> on starts with it.
\<close>

definition is_match :: "string \<Rightarrow> string \<Rightarrow> bool" where
  "is_match m g =
     (\<exists>ws1 ws2 q1 q2.
        m = ''__version__'' @ ws1 @ ''='' @ ws2 @ [q1] @ g @ [q2]
        \<and> list_all is_space ws1 \<and> list_all is_space ws2
        \<and> is_quote q1 \<and> is_quote q2
        \<and> g \<noteq> [] \<and> line_feed \<notin> set g)"

definition occurs_at :: "string \<Rightarrow> nat \<Rightarrow> string \<Rightarrow> bool" where
  "occurs_at content k g =
     (k \<le> length content \<and> (\<exists>m post. drop k content = m @ post \<and> is_match m g))"

definition contains_match :: "string \<Rightarrow> bool" where
  "contains_match content = (\<exists>k g. occurs_at content k g)"

subsection \<open>Notions for stating the properties of the builder\<close>

text \<open>The modification time of an existing path.\<close>

definition mtime_of :: "fsys \<Rightarrow> path \<Rightarrow> int" where
  "mtime_of f p =
     (case node_at f p of
        Some (File c t) \<Rightarrow> t
      | Some (Dir t) \<Rightarrow> t
      | Some BrokenLink \<Rightarrow> 0
      | None \<Rightarrow> 0)"

text \<open>An entry can be stat'ed when it is a regular file or a directory.\<close>

definition can_stat :: "fsys \<Rightarrow> path \<Rightarrow> bool" where
  "can_stat f p =
     (case node_at f p of
        Some (File c t) \<Rightarrow> True
      | Some (Dir t) \<Rightarrow> True
      | Some BrokenLink \<Rightarrow> False
      | None \<Rightarrow> False)"

text \<open>The wheels of a directory, most recently modified first, in scan order among equals.\<close>

definition newest_first :: "fsys \<Rightarrow> path \<Rightarrow> path list" where
  "newest_first f d = sort_key (\<lambda>p. - mtime_of f p) (glob_whl f d)"

text \<open>
  What the properties of the builder ask of the commands it runs, for a path \<open>p\<close>: that
  no command changes the content of the file at \<open>p\<close>, or only that no command removes
  the regular file at \<open>p\<close>.
\<close>

definition tools_keep_content :: "sys \<Rightarrow> path \<Rightarrow> bool" where
  "tools_keep_content S p =
     (\<forall>cmd env cwd f t.
        file_content (fst (snd (subprocess S cmd env cwd (f, t)))) p = file_content f p)"

definition tools_keep_file :: "sys \<Rightarrow> path \<Rightarrow> bool" where
  "tools_keep_file S p =
     (\<forall>cmd env cwd f t.
        file_content f p \<noteq> None \<longrightarrow>
        file_content (fst (snd (subprocess S cmd env cwd (f, t)))) p \<noteq> None)"

text \<open>
  A statement sequence keeps the content at \<open>p\<close> when the file at \<open>p\<close> reads the same after
  it as before it, on every outcome; it keeps the file at \<open>p\<close> when a regular file at \<open>p\<close>
  is still a regular file after it.
\<close>

definition keeps_content :: "path \<Rightarrow> 'a io \<Rightarrow> bool" where
  "keeps_content p m = (\<forall>w. file_content (fs (snd (m w))) p = file_content (fs w) p)"

definition keeps_file :: "path \<Rightarrow> 'a io \<Rightarrow> bool" where
  "keeps_file p m =
     (\<forall>w. file_content (fs w) p \<noteq> None \<longrightarrow> file_content (fs (snd (m w))) p \<noteq> None)"

text \<open>
  The bytes of a file survive a read and a write in text mode when, if they can be
  decoded, the decoded text with its line ends translated encodes to the same bytes.
  This asks that the file holds no carriage return and that the codec undoes itself.
\<close>

definition text_roundtrips :: "sys \<Rightarrow> string option \<Rightarrow> bool" where
  "text_roundtrips S content =
     (case content of
        None \<Rightarrow> True
      | Some b \<Rightarrow>
          (case decode S b of
             None \<Rightarrow> True
           | Some text \<Rightarrow> encode S (translate_newlines text) = Some b))"

section \<open>Properties of the resource loader\<close>

subsection \<open>The search for a data file\<close>

lemma candidates_of_Nil: "candidates_of np [] = []"
  by (simp add: candidates_of_def)

lemma candidates_of_Cons:
  "candidates_of np (r # roots) =
     (if r = [] then candidates_of np roots
      else normpath (join r [np]) # candidates_of np roots)"
  by (simp add: candidates_of_def)

lemma search_loop_find:
  "search_loop ex np roots acc =
     (case find ex (candidates_of np roots) of
        Some c \<Rightarrow> Inr c
      | None \<Rightarrow> Inl (acc @ candidates_of np roots))"
proof (induction roots arbitrary: acc)
  case Nil
  show ?case by (simp add: candidates_of_Nil)
next
  case (Cons r roots)
  show ?case
    using Cons.IH [of acc] Cons.IH [of "acc @ [normpath (join r [np])]"]
    by (simp add: candidates_of_Cons Let_def split: option.split)
qed

lemma search_roots_override:
  assumes "environ E ''KERAS_CV_DATA_ROOT'' = Some r" and "r \<noteq> []"
  shows "\<exists>rest. search_roots E = r # rest"
  using assms by (simp add: search_roots_def Let_def)

text \<open>
  C3.  For every path and every filesystem, \<open>get_path_to_datafile\<close> returns the first
  candidate, in search order, that exists (\<open>find\<close> takes the first element satisfying
  \<open>os.path.exists\<close>, which does not distinguish files from directories); when none
  exists it raises \<open>FileNotFoundError\<close>, and the message lists all candidates in search
  order, separated by a comma and a space.
\<close>

theorem get_path_to_datafile_first_existing:
  "get_path_to_datafile E path =
     (case find (path_exists E) (candidates E path) of
        Some c \<Rightarrow> Inr c
      | None \<Rightarrow>
          Inl (FileNotFoundError
                 (''Unable to locate resource '' @ [CHR 0x27] @ path @ [CHR 0x27]
                    @ ''. Looked in: '' @ sep_join '', '' (candidates E path))))"
  by (simp add: get_path_to_datafile_def candidates_def search_loop_find
        not_found_message_def split: option.split)

theorem get_path_to_datafile_first_existing_witness:
  "get_path_to_datafile example_env ''bar.so'' = Inr ''/ws/bazel-bin/keras_cv/src/bar.so''
   \<and> get_path_to_datafile example_env ''baz.so''
       = Inl (FileNotFoundError
                (''Unable to locate resource '' @ [CHR 0x27] @ ''baz.so'' @ [CHR 0x27]
                   @ ''. Looked in: /ovr/baz.so, /ws/keras_cv/src/baz.so, ''
                   @ ''/ws/keras_cv/baz.so, /ws/bazel-bin/keras_cv/src/baz.so''))"
proof -
  have bar: "find (path_exists example_env) (candidates example_env ''bar.so'')
               = Some ''/ws/bazel-bin/keras_cv/src/bar.so''"
    by code_simp
  have baz: "find (path_exists example_env) (candidates example_env ''baz.so'') = None"
    by code_simp
  have cands: "sep_join '', '' (candidates example_env ''baz.so'')
                 = ''/ovr/baz.so, /ws/keras_cv/src/baz.so, ''
                   @ ''/ws/keras_cv/baz.so, /ws/bazel-bin/keras_cv/src/baz.so''"
    by code_simp
  show ?thesis
    using get_path_to_datafile_first_existing [of example_env "''bar.so''"]
      get_path_to_datafile_first_existing [of example_env "''baz.so''"]
    by (simp add: bar baz cands)
qed

text \<open>
  C4.  When \<open>KERAS_CV_DATA_ROOT\<close> is set to a non-empty root and the resource exists under
  it, the result is the path joined under that root, whatever else exists.
\<close>

theorem get_path_to_datafile_override_first:
  assumes "environ E ''KERAS_CV_DATA_ROOT'' = Some r"
    and "r \<noteq> []"
    and "path_exists E (normpath (join r [str_replace ''/'' os_sep path]))"
  shows "get_path_to_datafile E path
           = Inr (normpath (join r [str_replace ''/'' os_sep path]))
         \<and> hd (search_roots E) = r"
proof -
  obtain rest where roots: "search_roots E = r # rest"
    using search_roots_override [OF assms(1,2)] by blast
  have "search_loop (path_exists E) (str_replace ''/'' os_sep path) (search_roots E) []
          = Inr (normpath (join r [str_replace ''/'' os_sep path]))"
    using assms(2,3) by (simp add: roots Let_def)
  then show ?thesis
    by (simp add: get_path_to_datafile_def roots)
qed

theorem get_path_to_datafile_override_first_witness:
  "get_path_to_datafile example_env ''foo.so'' = Inr ''/ovr/foo.so''
   \<and> path_exists example_env ''/ws/keras_cv/src/foo.so''
   \<and> hd (search_roots example_env) = ''/ovr''"
proof -
  have env: "environ example_env ''KERAS_CV_DATA_ROOT'' = Some ''/ovr''"
    by (simp add: example_env_def)
  have ne: "''/ovr'' \<noteq> []" by simp
  have p: "normpath (join ''/ovr'' [str_replace ''/'' os_sep ''foo.so'']) = ''/ovr/foo.so''"
    by code_simp
  have ex: "path_exists example_env
              (normpath (join ''/ovr'' [str_replace ''/'' os_sep ''foo.so'']))"
    by code_simp
  have other: "path_exists example_env ''/ws/keras_cv/src/foo.so''"
    by (simp add: example_env_def)
  show ?thesis
    using get_path_to_datafile_override_first [OF env ne ex, unfolded p] other by simp
qed

subsection \<open>The ABI warning\<close>

lemma display_warning_no_error:
  "action \<noteq> Error \<Longrightarrow>
   display_warning_if_incompatible tf action g =
     (Inr (),
      if abi_warning_already_raised g \<or> abi_is_compatible tf then g
      else g\<lparr> warned := warned g @ [abi_warning_message (tf_version tf)],
              abi_warning_already_raised := True \<rparr>)"
  by (simp add: display_warning_if_incompatible_def warnings_warn_def)

lemma display_warning_error:
  "\<not> abi_is_compatible tf \<Longrightarrow> \<not> abi_warning_already_raised g \<Longrightarrow>
   display_warning_if_incompatible tf Error g =
     (Inl (UserWarning (abi_warning_message (tf_version tf))),
      g\<lparr> warned := warned g @ [abi_warning_message (tf_version tf)] \<rparr>)"
  by (simp add: display_warning_if_incompatible_def warnings_warn_def)

lemma ops_globals:
  "snd (snd (ops tf E action self g)) = g
   \<or> snd (snd (ops tf E action self g)) = snd (display_warning_if_incompatible tf action g)"
  by (simp add: ops_def split: option.split sum.split prod.split)

text \<open>
  The invariant of a run in which \<open>warn\<close> never raises: the number of calls of \<open>warn\<close>
  since a given start is zero while the flag is clear and at most one once it is set.
\<close>

definition warned_since :: "nat \<Rightarrow> globals \<Rightarrow> bool" where
  "warned_since n g =
     (if abi_warning_already_raised g then length (warned g) \<le> n + 1
      else length (warned g) = n)"

lemma warned_since_display:
  "action \<noteq> Error \<Longrightarrow> warned_since n g \<Longrightarrow>
   warned_since n (snd (display_warning_if_incompatible tf action g))"
  by (auto simp add: warned_since_def display_warning_no_error split: if_splits)

lemma warned_since_step:
  assumes "warned_since n (snd s)" and "fst (snd a) \<noteq> Error"
  shows "warned_since n (snd (step tf a s))"
proof -
  obtain heap g where s: "s = (heap, g)" by (cases s)
  obtain E action act where a: "a = (E, action, act)" by (cases a)
  have ne: "action \<noteq> Error" using assms(2) by (simp add: a)
  show ?thesis
  proof (cases act)
    case (Create p)
    then show ?thesis using assms(1) by (simp add: s a)
  next
    case (Access i)
    show ?thesis
    proof (cases "i < length heap")
      case True
      obtain r self' g' where o: "ops tf E action (heap ! i) g = (r, self', g')"
        by (cases "ops tf E action (heap ! i) g")
      have "g' = g \<or> g' = snd (display_warning_if_incompatible tf action g)"
        using ops_globals [of tf E action "heap ! i" g] by (simp add: o)
      then have "warned_since n g'"
        using assms(1) warned_since_display [OF ne, of n g tf] by (auto simp add: s)
      then show ?thesis using True by (simp add: s a Access o)
    next
      case False
      then show ?thesis using assms(1) by (simp add: s a Access)
    qed
  qed
qed

lemma warned_since_run:
  "warned_since n (snd s) \<Longrightarrow> list_all (\<lambda>a. fst (snd a) \<noteq> Error) as \<Longrightarrow>
   warned_since n (snd (run tf as s))"
  by (induction as arbitrary: s) (simp_all add: warned_since_step)

lemma warned_since_bound: "warned_since n g \<Longrightarrow> length (warned g) \<le> n + 1"
  by (simp add: warned_since_def split: if_splits)

lemma warned_since_start:
  "\<exists>n. warned_since n g \<and> n \<le> length (warned g)"
proof (cases "abi_warning_already_raised g")
  case True
  then have "warned_since (length (warned g)) g" by (simp add: warned_since_def)
  then show ?thesis by auto
next
  case False
  then have "warned_since (length (warned g)) g" by (simp add: warned_since_def)
  then show ?thesis by auto
qed

lemma run_warned_bound:
  assumes "list_all (\<lambda>a. fst (snd a) \<noteq> Error) acts"
  shows "length (warned (snd (run tf acts s))) \<le> length (warned (snd s)) + 1"
proof -
  obtain n where n: "warned_since n (snd s)" "n \<le> length (warned (snd s))"
    using warned_since_start [of "snd s"] by blast
  have "warned_since n (snd (run tf acts s))"
    using n(1) assms by (rule warned_since_run)
  then have "length (warned (snd (run tf acts s))) \<le> n + 1"
    by (rule warned_since_bound)
  then show ?thesis using n(2) by simp
qed

lemma ops_first_access:
  "action \<noteq> Error \<Longrightarrow> ops_cached self = None \<Longrightarrow>
   fst (ops tf E action self g) =
     (case get_path_to_datafile E (relative_path self) of
        Inl e \<Rightarrow> Inl e
      | Inr p \<Rightarrow> load_op_library tf p)"
  by (simp add: ops_def display_warning_no_error split: sum.split)

lemma ops_version_independent:
  assumes "action \<noteq> Error"
  shows "fst (ops tf E action self g)
           = fst (ops (tf\<lparr> tf_version := TF_VERSION_FOR_ABI_COMPATIBILITY \<rparr>) E action self g)"
proof (cases "ops_cached self")
  case None
  show ?thesis
    using ops_first_access [OF assms None, of tf E g]
      ops_first_access [OF assms None, of "tf\<lparr> tf_version := TF_VERSION_FOR_ABI_COMPATIBILITY \<rparr>" E g]
    by (simp split: sum.split)
next
  case (Some lib)
  then show ?thesis by (simp add: ops_def)
qed

lemma ops_error_filter:
  assumes "ops_cached self = None" and "\<not> abi_is_compatible tf"
    and "\<not> abi_warning_already_raised g"
  shows "ops tf E Error self g =
           (Inl (UserWarning (abi_warning_message (tf_version tf))), self,
            g\<lparr> warned := warned g @ [abi_warning_message (tf_version tf)] \<rparr>)"
  using assms by (simp add: ops_def display_warning_error)

text \<open>
  C7, as the code has it.  In a run in which the warnings filter never has the action
  \<open>error\<close>, whatever instances are created and read, \<open>warnings.warn\<close> is called at most
  once more than before the run, so at most once from the initial module state; and an
  access returns what \<open>tf.load_op_library\<close> returns on the located path, the same as it
  would with a compatible version.  Under the action \<open>error\<close> the first access with an
  incompatible version raises the warning, sets no flag and loads nothing.
\<close>

theorem abi_warning_once_unless_error:
  "(list_all (\<lambda>a. fst (snd a) \<noteq> Error) acts \<longrightarrow>
      length (warned (snd (run tf acts (heap, g)))) \<le> length (warned g) + 1
      \<and> length (warned (snd (run tf acts ([], initial_globals)))) \<le> 1)
   \<and> (action \<noteq> Error \<longrightarrow>
        fst (ops tf E action self g)
          = fst (ops (tf\<lparr> tf_version := TF_VERSION_FOR_ABI_COMPATIBILITY \<rparr>) E action self g)
        \<and> (ops_cached self = None \<longrightarrow>
             fst (ops tf E action self g) =
               (case get_path_to_datafile E (relative_path self) of
                  Inl e \<Rightarrow> Inl e
                | Inr p \<Rightarrow> load_op_library tf p)))
   \<and> (ops_cached self = None \<and> \<not> abi_is_compatible tf \<and> \<not> abi_warning_already_raised g \<longrightarrow>
        ops tf E Error self g =
          (Inl (UserWarning (abi_warning_message (tf_version tf))), self,
           g\<lparr> warned := warned g @ [abi_warning_message (tf_version tf)] \<rparr>))"
proof (intro conjI impI)
  assume a: "list_all (\<lambda>a. fst (snd a) \<noteq> Error) acts"
  show "length (warned (snd (run tf acts (heap, g)))) \<le> length (warned g) + 1"
    using run_warned_bound [OF a, of tf "(heap, g)"] by simp
  show "length (warned (snd (run tf acts ([], initial_globals)))) \<le> 1"
    using run_warned_bound [OF a, of tf "([], initial_globals)"]
    by (simp add: initial_globals_def)
next
  assume "action \<noteq> Error"
  then show "fst (ops tf E action self g)
          = fst (ops (tf\<lparr> tf_version := TF_VERSION_FOR_ABI_COMPATIBILITY \<rparr>) E action self g)"
    by (rule ops_version_independent)
next
  assume "action \<noteq> Error" and "ops_cached self = None"
  then show "fst (ops tf E action self g) =
               (case get_path_to_datafile E (relative_path self) of
                  Inl e \<Rightarrow> Inl e
                | Inr p \<Rightarrow> load_op_library tf p)"
    by (rule ops_first_access)
next
  assume "ops_cached self = None \<and> \<not> abi_is_compatible tf \<and> \<not> abi_warning_already_raised g"
  then show "ops tf E Error self g =
          (Inl (UserWarning (abi_warning_message (tf_version tf))), self,
           g\<lparr> warned := warned g @ [abi_warning_message (tf_version tf)] \<rparr>)"
    by (simp add: ops_error_filter)
qed

theorem abi_warning_once_unless_error_witness:
  "\<not> abi_is_compatible example_tf
   \<and> length (warned (snd (run example_tf (example_actions Default) ([], initial_globals)))) = 1
   \<and> map ops_cached (fst (run example_tf (example_actions Default) ([], initial_globals)))
       = [Some ''/ovr/foo.so'', Some ''/ws/bazel-bin/keras_cv/src/bar.so'']
   \<and> fst (ops example_tf example_env Default (LazySO_init ''foo.so'') initial_globals)
       = Inr ''/ovr/foo.so''
   \<and> fst (ops example_tf example_env Error (LazySO_init ''foo.so'') initial_globals)
       = Inl (UserWarning (abi_warning_message ''2.16.1''))"
proof -
  have f: "list_all (\<lambda>a. fst (snd a) \<noteq> Error) (example_actions Default)"
    by (simp add: example_actions_def)
  have v: "\<not> abi_is_compatible example_tf" by code_simp
  have n: "length (warned (snd (run example_tf (example_actions Default) ([], initial_globals))))
             = 1"
    by code_simp
  have l: "map ops_cached (fst (run example_tf (example_actions Default) ([], initial_globals)))
             = [Some ''/ovr/foo.so'', Some ''/ws/bazel-bin/keras_cv/src/bar.so'']"
    by code_simp
  have c: "ops_cached (LazySO_init ''foo.so'' :: string LazySO) = None"
    by (simp add: LazySO_init_def)
  have p: "get_path_to_datafile example_env
             (relative_path (LazySO_init ''foo.so'' :: string LazySO)) = Inr ''/ovr/foo.so''"
    by code_simp
  have t: "load_op_library example_tf ''/ovr/foo.so'' = Inr ''/ovr/foo.so''"
    by (simp add: example_tf_def)
  have g: "\<not> abi_warning_already_raised initial_globals"
    by (simp add: initial_globals_def)
  have tv: "tf_version example_tf = ''2.16.1''" by (simp add: example_tf_def)
  have d: "Default \<noteq> Error" by simp
  note th = abi_warning_once_unless_error
              [of "example_actions Default" example_tf "[]" initial_globals Default example_env
                  "LazySO_init ''foo.so''"]
  have "fst (ops example_tf example_env Default (LazySO_init ''foo.so'') initial_globals)
          = (case get_path_to_datafile example_env
                    (relative_path (LazySO_init ''foo.so'' :: string LazySO)) of
               Inl e \<Rightarrow> Inl e
             | Inr p \<Rightarrow> load_op_library example_tf p)"
    using th d c by blast
  then have r1: "fst (ops example_tf example_env Default (LazySO_init ''foo.so'') initial_globals)
                   = Inr ''/ovr/foo.so''"
    by (simp add: p t)
  have r2: "fst (ops example_tf example_env Error (LazySO_init ''foo.so'') initial_globals)
              = Inl (UserWarning (abi_warning_message ''2.16.1''))"
    using th c v g by (simp add: tv)
  show ?thesis using v n l r1 r2 by simp
qed

text \<open>
  C7, as the specification states it, fails when warnings are errors: with an
  incompatible version every access raises the warning, so \<open>warn\<close> is called three times
  in the example run, and no library is loaded.
\<close>

theorem abi_warning_repeats_under_error_filter:
  "length (warned (snd (run example_tf (example_actions Error) ([], initial_globals)))) = 3
   \<and> map ops_cached (fst (run example_tf (example_actions Error) ([], initial_globals)))
       = [None, None]
   \<and> fst (ops example_tf example_env Error (LazySO_init ''foo.so'') initial_globals)
       = Inl (UserWarning (abi_warning_message ''2.16.1''))"
  by code_simp

section \<open>Properties of the release builder\<close>

subsection \<open>The matcher against the language of the pattern\<close>

lemma lazy_group_sound:
  "lazy_group acc s = Some (g, rest) \<Longrightarrow>
   \<exists>mid q. g = acc @ mid \<and> s = mid @ q # rest \<and> is_quote q \<and> line_feed \<notin> set mid"
proof (induction s arbitrary: acc)
  case Nil
  then show ?case by simp
next
  case (Cons c cs)
  show ?case
  proof (cases "is_quote c")
    case True
    then have "g = acc" "rest = cs" using Cons.prems by simp_all
    then have "g = acc @ [] \<and> c # cs = [] @ c # rest \<and> is_quote c \<and> line_feed \<notin> set []"
      using True by simp
    then show ?thesis by blast
  next
    case False
    then have nl: "c \<noteq> line_feed" and rec: "lazy_group (acc @ [c]) cs = Some (g, rest)"
      using Cons.prems by (simp_all split: if_splits)
    from Cons.IH [OF rec] obtain mid q where
      m: "g = (acc @ [c]) @ mid" "cs = mid @ q # rest" "is_quote q" "line_feed \<notin> set mid"
      by blast
    have "g = acc @ (c # mid) \<and> c # cs = (c # mid) @ q # rest \<and> is_quote q
          \<and> line_feed \<notin> set (c # mid)"
      using m nl by simp
    then show ?thesis by blast
  qed
qed

lemma quote_not_line_feed: "is_quote c \<Longrightarrow> c \<noteq> line_feed"
  by (auto simp add: is_quote_def line_feed_def)

lemma lazy_group_complete:
  "is_quote q \<Longrightarrow> line_feed \<notin> set mid \<Longrightarrow>
   \<exists>g rest. lazy_group acc (mid @ q # post) = Some (g, rest)
            \<and> length g \<le> length acc + length mid"
proof (induction mid arbitrary: acc)
  case Nil
  then show ?case by simp
next
  case (Cons c mid)
  show ?case
  proof (cases "is_quote c")
    case True
    then show ?thesis by simp
  next
    case False
    have nl: "c \<noteq> line_feed" using Cons.prems(2) by auto
    have "line_feed \<notin> set mid" using Cons.prems(2) by simp
    from Cons.IH [OF Cons.prems(1) this, of "acc @ [c]"] obtain g rest where
      "lazy_group (acc @ [c]) (mid @ q # post) = Some (g, rest)"
      "length g \<le> length (acc @ [c]) + length mid"
      by blast
    then show ?thesis using False nl by simp
  qed
qed

lemma dropWhile_spaces:
  "list_all is_space ws \<Longrightarrow> \<not> is_space x \<Longrightarrow> dropWhile is_space (ws @ x # r) = x # r"
  by (induction ws) simp_all

lemma equals_not_space: "\<not> is_space CHR ''=''"
  by (simp add: is_space_def)

lemma quote_not_space: "is_quote q \<Longrightarrow> \<not> is_space q"
  by (auto simp add: is_quote_def is_space_def)

lemma dropWhile_split:
  "dropWhile P xs = y # ys \<Longrightarrow> xs = takeWhile P xs @ y # ys \<and> list_all P (takeWhile P xs)"
proof -
  assume a: "dropWhile P xs = y # ys"
  have "xs = takeWhile P xs @ dropWhile P xs" by simp
  then have "xs = takeWhile P xs @ y # ys" by (simp only: a)
  moreover have "list_all P (takeWhile P xs)"
    by (simp add: list_all_iff) (metis set_takeWhileD)
  ultimately show ?thesis by simp
qed

lemma match_here_sound:
  assumes "match_here s = Some (g, rest)"
  shows "\<exists>m. s = m @ rest \<and> is_match m g"
proof -
  from assms obtain e s2 q s4 c s5 where
    p: "prefix ''__version__'' s"
    and d1: "dropWhile is_space (drop (length ''__version__'') s) = e # s2"
    and e: "e = CHR ''=''"
    and d2: "dropWhile is_space s2 = q # s4"
    and q: "is_quote q"
    and d3: "s4 = c # s5"
    and c: "c \<noteq> line_feed"
    and lg: "lazy_group [c] s5 = Some (g, rest)"
    by (auto simp add: match_here_def split: if_splits list.splits)
  from p obtain s0 where s0: "s = ''__version__'' @ s0" by (auto simp add: prefix_def)
  then have s0': "drop (length ''__version__'') s = s0" by simp
  define ws1 where "ws1 = takeWhile is_space s0"
  define ws2 where "ws2 = takeWhile is_space s2"
  have w1: "s0 = ws1 @ e # s2" "list_all is_space ws1"
    using dropWhile_split [of is_space s0 e s2] d1 s0' by (simp_all add: ws1_def)
  have w2: "s2 = ws2 @ q # s4" "list_all is_space ws2"
    using dropWhile_split [OF d2] by (simp_all add: ws2_def)
  from lazy_group_sound [OF lg] obtain mid q2 where
    m: "g = [c] @ mid" "s5 = mid @ q2 # rest" "is_quote q2" "line_feed \<notin> set mid"
    by blast
  define m where "m = ''__version__'' @ ws1 @ ''='' @ ws2 @ [q] @ g @ [q2]"
  have "s = m @ rest"
    using s0 w1(1) w2(1) d3 m(1,2) e by (simp add: m_def)
  moreover have "is_match m g"
    unfolding is_match_def
    using w1(2) w2(2) q m(1,3,4) c m_def by auto
  ultimately show ?thesis by blast
qed

lemma match_here_complete:
  assumes "is_match m g'"
  shows "\<exists>g rest. match_here (m @ post) = Some (g, rest) \<and> length g \<le> length g'"
proof -
  from assms obtain ws1 ws2 q1 q2 where
    m: "m = ''__version__'' @ ws1 @ ''='' @ ws2 @ [q1] @ g' @ [q2]"
    and w: "list_all is_space ws1" "list_all is_space ws2"
    and q: "is_quote q1" "is_quote q2"
    and g: "g' \<noteq> []" "line_feed \<notin> set g'"
    by (auto simp add: is_match_def)
  from g(1) obtain c mid where cm: "g' = c # mid" by (cases g') auto
  have c: "c \<noteq> line_feed" and mid: "line_feed \<notin> set mid" using g(2) cm by auto
  from lazy_group_complete [OF q(2) mid, of "[c]" post] obtain g rest where
    lg: "lazy_group [c] (mid @ q2 # post) = Some (g, rest)" "length g \<le> length [c] + length mid"
    by blast
  have d1: "dropWhile is_space (ws1 @ CHR ''='' # ws2 @ q1 # c # mid @ q2 # post)
              = CHR ''='' # ws2 @ q1 # c # mid @ q2 # post"
    using w(1) equals_not_space by (rule dropWhile_spaces)
  have d2: "dropWhile is_space (ws2 @ q1 # c # mid @ q2 # post) = q1 # c # mid @ q2 # post"
    using w(2) quote_not_space [OF q(1)] by (rule dropWhile_spaces)
  have "match_here (m @ post) = Some (g, rest)"
    by (simp add: match_here_def m cm d1 d2 q(1) c lg(1))
  then show ?thesis using lg(2) cm by auto
qed

lemma match_here_Nil: "match_here [] = None"
  by (simp add: match_here_def)

lemma scan_None:
  "scan passed s = None \<Longrightarrow> k \<le> length s \<Longrightarrow> match_here (drop k s) = None"
proof (induction s arbitrary: passed k)
  case Nil
  then show ?case by (simp add: match_here_Nil)
next
  case (Cons c cs)
  have here: "match_here (c # cs) = None"
    using Cons.prems(1) by (simp split: option.splits prod.splits)
  then have rec: "scan (passed @ [c]) cs = None" using Cons.prems(1) by simp
  show ?case
  proof (cases k)
    case 0
    then show ?thesis using here by simp
  next
    case (Suc j)
    then have "j \<le> length cs" using Cons.prems(2) by simp
    from Cons.IH [OF rec this] show ?thesis using Suc by simp
  qed
qed

lemma scan_Some:
  "scan passed s = Some (pre, g, rest) \<Longrightarrow>
   \<exists>k. k \<le> length s \<and> pre = passed @ take k s
       \<and> match_here (drop k s) = Some (g, rest)
       \<and> (\<forall>j<k. match_here (drop j s) = None)"
proof (induction s arbitrary: passed)
  case Nil
  then show ?case by (simp add: match_here_Nil)
next
  case (Cons c cs)
  show ?case
  proof (cases "match_here (c # cs)")
    case (Some m)
    then have "match_here (c # cs) = Some (g, rest)" "pre = passed"
      using Cons.prems by (cases m, simp)+
    then have "0 \<le> length (c # cs) \<and> pre = passed @ take 0 (c # cs)
               \<and> match_here (drop 0 (c # cs)) = Some (g, rest)
               \<and> (\<forall>j<0. match_here (drop j (c # cs)) = None)"
      by simp
    then show ?thesis by blast
  next
    case None
    then have "scan (passed @ [c]) cs = Some (pre, g, rest)" using Cons.prems by simp
    from Cons.IH [OF this] obtain k where
      k: "k \<le> length cs" "pre = (passed @ [c]) @ take k cs"
         "match_here (drop k cs) = Some (g, rest)"
         "\<forall>j<k. match_here (drop j cs) = None"
      by blast
    have "\<forall>j<Suc k. match_here (drop j (c # cs)) = None"
    proof (intro allI impI)
      fix j assume "j < Suc k"
      then show "match_here (drop j (c # cs)) = None"
        using None k(4) by (cases j) simp_all
    qed
    then have "Suc k \<le> length (c # cs) \<and> pre = passed @ take (Suc k) (c # cs)
               \<and> match_here (drop (Suc k) (c # cs)) = Some (g, rest)
               \<and> (\<forall>j<Suc k. match_here (drop j (c # cs)) = None)"
      using k(1,2,3) by simp
    then show ?thesis by blast
  qed
qed

lemma occurs_at_match_here:
  assumes "occurs_at content k g'"
  shows "\<exists>g rest. match_here (drop k content) = Some (g, rest) \<and> length g \<le> length g'"
proof -
  from assms obtain m post where "drop k content = m @ post" "is_match m g'"
    by (auto simp add: occurs_at_def)
  then show ?thesis using match_here_complete [of m g' post] by simp
qed

lemma match_here_occurs_at:
  assumes "match_here (drop k content) = Some (g, rest)" and "k \<le> length content"
  shows "occurs_at content k g"
  using match_here_sound [OF assms(1)] assms(2) by (auto simp add: occurs_at_def)

lemma re_search_None_iff: "re_search content = None \<longleftrightarrow> \<not> contains_match content"
proof
  assume n: "re_search content = None"
  show "\<not> contains_match content"
  proof
    assume "contains_match content"
    then obtain k g where o: "occurs_at content k g" by (auto simp add: contains_match_def)
    then have "k \<le> length content" by (simp add: occurs_at_def)
    then have "match_here (drop k content) = None"
      using n scan_None [of "[]" content k] by (simp add: re_search_def)
    then show False using occurs_at_match_here [OF o] by simp
  qed
next
  assume c: "\<not> contains_match content"
  show "re_search content = None"
  proof (cases "re_search content")
    case None
    then show ?thesis .
  next
    case (Some r)
    obtain pre g rest where r: "r = (pre, g, rest)" by (cases r)
    from scan_Some [of "[]" content pre g rest] Some r obtain k where
      "k \<le> length content" "match_here (drop k content) = Some (g, rest)"
      by (auto simp add: re_search_def)
    then have "occurs_at content k g" using match_here_occurs_at by blast
    then show ?thesis using c by (auto simp add: contains_match_def)
  qed
qed

text \<open>
  The match that \<open>re.search\<close> finds is the leftmost occurrence, and among the occurrences
  at that position the one with the shortest group.
\<close>

lemma re_search_Some:
  assumes "re_search content = Some (pre, g, rest)"
  shows "\<exists>k. occurs_at content k g \<and> pre = take k content
             \<and> (\<forall>k' g'. occurs_at content k' g' \<longrightarrow>
                   k \<le> k' \<and> (k' = k \<longrightarrow> length g \<le> length g'))"
proof -
  from scan_Some [of "[]" content pre g rest] assms obtain k where
    k: "k \<le> length content" "pre = take k content"
       "match_here (drop k content) = Some (g, rest)"
       "\<forall>j<k. match_here (drop j content) = None"
    by (auto simp add: re_search_def)
  have o: "occurs_at content k g" using k(3,1) by (rule match_here_occurs_at)
  have "\<forall>k' g'. occurs_at content k' g' \<longrightarrow> k \<le> k' \<and> (k' = k \<longrightarrow> length g \<le> length g')"
  proof (intro allI impI)
    fix k' g' assume o': "occurs_at content k' g'"
    from occurs_at_match_here [OF o'] obtain g2 rest2 where
      m: "match_here (drop k' content) = Some (g2, rest2)" "length g2 \<le> length g'"
      by blast
    have "k \<le> k'"
    proof (rule ccontr)
      assume "\<not> k \<le> k'"
      then have "match_here (drop k' content) = None" using k(4) by simp
      then show False using m(1) by simp
    qed
    moreover have "k' = k \<longrightarrow> length g \<le> length g'" using m k(3) by auto
    ultimately show "k \<le> k' \<and> (k' = k \<longrightarrow> length g \<le> length g')" by simp
  qed
  then show ?thesis using o k(2) by blast
qed


subsection \<open>\<open>parse_version\<close>\<close>

lemma read_text_file:
  "file_content (fs w) p = Some b \<Longrightarrow>
   read_text S p w =
     (case decode S b of
        None \<Rightarrow> (Inl UnicodeDecodeError, w)
      | Some text \<Rightarrow> (Inr (translate_newlines text), w))"
  by (auto simp add: file_content_def read_text_def split: option.splits node.splits)

lemma read_text_no_file:
  "file_content (fs w) p = None \<Longrightarrow> \<exists>e. read_text S p w = (Inl e, w) \<and> \<not> is_ValueError e"
  by (auto simp add: file_content_def read_text_def is_ValueError_def
        split: option.splits node.splits)

lemma read_text_snd: "snd (read_text S p w) = w"
  by (simp add: read_text_def split: option.split node.split)

lemma read_text_Inr:
  "read_text S p w = (Inr text, w') \<Longrightarrow>
   w' = w \<and> (\<exists>b t. file_content (fs w) p = Some b \<and> decode S b = Some t
                  \<and> text = translate_newlines t)"
  by (auto simp add: file_content_def read_text_def split: option.splits node.splits)

lemma parse_version_read:
  "read_text S p w = (Inr text, w) \<Longrightarrow>
   parse_version S p w =
     (case re_search text of
        None \<Rightarrow> (Inl (ValueError ''Unable to parse __version__ from version_utils.py''), w)
      | Some (pre, g, rest) \<Rightarrow> (Inr g, w))"
  by (simp add: parse_version_def io_bind_def io_raise_def io_return_def split: option.split)

lemma parse_version_read_fails:
  "read_text S p w = (Inl e, w) \<Longrightarrow> parse_version S p w = (Inl e, w)"
  by (simp add: parse_version_def io_bind_def)

text \<open>
  C8, as the code has it.  On a version file that is a regular file, \<open>parse_version\<close>
  raises a \<open>ValueError\<close> exactly when the bytes cannot be decoded (\<open>UnicodeDecodeError\<close> is
  a \<open>ValueError\<close>) or the decoded text, with its line ends translated, contains no match
  of the pattern.  When that text contains a match, the function returns the group of the
  leftmost match, the text between its quotes, and of the matches at that position the
  one with the shortest group.  It changes nothing.
\<close>

theorem parse_version_value_error_iff:
  assumes "file_content (fs w) version_file = Some b"
  shows "((\<exists>e. fst (parse_version S version_file w) = Inl e \<and> is_ValueError e)
            \<longleftrightarrow> (case decode S b of
                   None \<Rightarrow> True
                 | Some text \<Rightarrow> \<not> contains_match (translate_newlines text)))
         \<and> (\<forall>text. decode S b = Some text \<and> contains_match (translate_newlines text) \<longrightarrow>
              (\<exists>k g. fst (parse_version S version_file w) = Inr g
                 \<and> occurs_at (translate_newlines text) k g
                 \<and> (\<forall>k' g'. occurs_at (translate_newlines text) k' g' \<longrightarrow>
                       k \<le> k' \<and> (k' = k \<longrightarrow> length g \<le> length g'))))
         \<and> snd (parse_version S version_file w) = w"
proof (cases "decode S b")
  case None
  then have "parse_version S version_file w = (Inl UnicodeDecodeError, w)"
    using read_text_file [OF assms, of S] by (simp add: parse_version_read_fails)
  then show ?thesis using None by (simp add: is_ValueError_def)
next
  case (Some decoded)
  let ?t = "translate_newlines decoded"
  have rd: "read_text S version_file w = (Inr ?t, w)"
    using read_text_file [OF assms, of S] Some by simp
  show ?thesis
  proof (cases "re_search ?t")
    case None
    then have "\<not> contains_match ?t" by (simp add: re_search_None_iff)
    then show ?thesis
      using None Some by (simp add: parse_version_read [OF rd] is_ValueError_def)
  next
    case (Some r)
    obtain pre g rest where r: "r = (pre, g, rest)" by (cases r)
    have c: "contains_match ?t" using Some re_search_None_iff [of ?t] by auto
    have pv: "parse_version S version_file w = (Inr g, w)"
      using Some r by (simp add: parse_version_read [OF rd])
    from re_search_Some [of ?t pre g rest] Some r obtain k where
      "occurs_at ?t k g"
      "\<forall>k' g'. occurs_at ?t k' g' \<longrightarrow> k \<le> k' \<and> (k' = k \<longrightarrow> length g \<le> length g')"
      by auto
    then show ?thesis using c pv \<open>decode S b = Some decoded\<close> by auto
  qed
qed

theorem parse_version_value_error_iff_witness:
  "fst (parse_version (example_sys 0 0 True) example_version_file
          (example_world example_version_content))
     = Inr ''1.2.3''
   \<and> contains_match (translate_newlines example_version_content)
   \<and> fst (parse_version (example_sys 0 0 True) example_version_file
            (example_world ''version = 1''))
       = Inl (ValueError ''Unable to parse __version__ from version_utils.py'')
   \<and> \<not> contains_match (translate_newlines ''version = 1'')
   \<and> fst (parse_version (example_sys 0 0 True) example_version_file
            (example_world [CHR 0xFF]))
       = Inl UnicodeDecodeError"
proof -
  let ?S = "example_sys 0 0 True"
  have f1: "file_content (fs (example_world example_version_content)) example_version_file
              = Some example_version_content"
    by code_simp
  have f2: "file_content (fs (example_world ''version = 1'')) example_version_file
              = Some ''version = 1''"
    by code_simp
  have d1: "decode ?S example_version_content = Some example_version_content"
    by code_simp
  have d2: "decode ?S ''version = 1'' = Some ''version = 1''"
    by code_simp
  have p1: "fst (parse_version ?S example_version_file (example_world example_version_content))
              = Inr ''1.2.3''"
    by code_simp
  have p2: "fst (parse_version ?S example_version_file (example_world ''version = 1''))
              = Inl (ValueError ''Unable to parse __version__ from version_utils.py'')"
    by code_simp
  have p3: "fst (parse_version ?S example_version_file (example_world [CHR 0xFF]))
              = Inl UnicodeDecodeError"
    by code_simp
  have c1: "contains_match (translate_newlines example_version_content)"
    using parse_version_value_error_iff [OF f1, of ?S] p1 d1 by auto
  have c2: "\<not> contains_match (translate_newlines ''version = 1'')"
    using parse_version_value_error_iff [OF f2, of ?S] p2 d2
    by (auto simp add: is_ValueError_def)
  show ?thesis using p1 p2 p3 c1 c2 by simp
qed

text \<open>
  C8, as the specification states it, fails: the bytes of a version file whose version
  holds a carriage return contain a match of the pattern, while the text that
  \<open>parse_version\<close> searches has a line feed there and contains none.
\<close>

theorem parse_version_carriage_return:
  "file_content (fs (example_world cr_version_content)) example_version_file
     = Some cr_version_content
   \<and> contains_match cr_version_content
   \<and> fst (parse_version (example_sys 0 0 True) example_version_file
            (example_world cr_version_content))
       = Inl (ValueError ''Unable to parse __version__ from version_utils.py'')"
proof -
  have "re_search cr_version_content \<noteq> None" by code_simp
  then have c: "contains_match cr_version_content" by (simp add: re_search_None_iff)
  have f: "file_content (fs (example_world cr_version_content)) example_version_file
             = Some cr_version_content"
    by code_simp
  have p: "fst (parse_version (example_sys 0 0 True) example_version_file
                  (example_world cr_version_content))
             = Inl (ValueError ''Unable to parse __version__ from version_utils.py'')"
    by code_simp
  show ?thesis using c f p by simp
qed

subsection \<open>\<open>locate_wheel\<close>\<close>

lemma st_mtime_can_stat: "can_stat f p \<Longrightarrow> st_mtime f p = Inr (mtime_of f p)"
  by (auto simp add: st_mtime_def mtime_of_def can_stat_def split: option.splits node.splits)

lemma st_mtime_cannot_stat: "\<not> can_stat f p \<Longrightarrow> \<exists>e. st_mtime f p = Inl e"
  by (auto simp add: st_mtime_def can_stat_def split: option.splits node.splits)

lemma stat_all_can_stat:
  "list_all (can_stat f) ps \<Longrightarrow> stat_all f ps = Inr (map (\<lambda>p. (mtime_of f p, p)) ps)"
  by (induction ps) (simp_all add: st_mtime_can_stat)

lemma stat_all_cannot_stat:
  "\<not> list_all (can_stat f) ps \<Longrightarrow> \<exists>e. stat_all f ps = Inl e"
proof (induction ps)
  case Nil
  then show ?case by simp
next
  case (Cons p ps)
  show ?case
  proof (cases "can_stat f p")
    case True
    then have "\<not> list_all (can_stat f) ps" using Cons.prems by simp
    then obtain e where "stat_all f ps = Inl e" using Cons.IH by blast
    then show ?thesis using True by (simp add: st_mtime_can_stat)
  next
    case False
    then obtain e where "st_mtime f p = Inl e" using st_mtime_cannot_stat by blast
    then show ?thesis by simp
  qed
qed

lemma map_keyed_insort:
  "insort_key (\<lambda>(t, p). - t) (m x, x) (map (\<lambda>p. (m p, p)) ys)
     = map (\<lambda>p. (m p, p)) (insort_key (\<lambda>p. - m p) x ys)"
  by (induction ys) simp_all

lemma sort_keyed:
  "sort_key (\<lambda>(t, p). - t) (map (\<lambda>p. (m p, p)) ps)
     = map (\<lambda>p. (m p, p)) (sort_key (\<lambda>p. - m p) ps)"
  by (induction ps) (simp_all add: map_keyed_insort)

lemma sorted_wheels:
  "map snd (sort_key (\<lambda>(t, p). - t) (map (\<lambda>p. (mtime_of f p, p)) (glob_whl f d)))
     = newest_first f d"
  by (simp add: sort_keyed newest_first_def comp_def)

lemma first_containing_find:
  "first_containing version wheels = find (\<lambda>w. sublist version (path_name w)) wheels"
  by (induction wheels) simp_all

text \<open>
  What \<open>locate_wheel\<close> returns in a directory that exists and whose wheels can all be
  stat'ed: of the wheels, most recently modified first, the first whose name contains the
  version; if no name contains it, the most recently modified wheel; if there is no
  wheel, \<open>None\<close>.
\<close>

lemma locate_wheel_newest_first:
  "exists_path f wheels_path \<Longrightarrow> list_all (can_stat f) (glob_whl f wheels_path) \<Longrightarrow>
   locate_wheel f wheels_path version =
     Inr (case find (\<lambda>w. sublist version (path_name w)) (newest_first f wheels_path) of
            Some wheel \<Rightarrow> Some wheel
          | None \<Rightarrow>
              (case newest_first f wheels_path of
                 [] \<Rightarrow> None
               | wheel # wheels \<Rightarrow> Some wheel))"
  by (simp add: locate_wheel_def stat_all_can_stat sorted_wheels first_containing_find Let_def
        split: option.split list.split)

text \<open>A wheel that cannot be stat'ed makes \<open>locate_wheel\<close> raise.\<close>

lemma locate_wheel_raises:
  "exists_path f wheels_path \<Longrightarrow> \<not> list_all (can_stat f) (glob_whl f wheels_path) \<Longrightarrow>
   \<exists>e. locate_wheel f wheels_path version = Inl e"
  using stat_all_cannot_stat [of f "glob_whl f wheels_path"]
  by (auto simp add: locate_wheel_def)



lemma two_element_list:
  assumes "set xs = {a, b}" and "distinct xs" and "a \<noteq> b"
  shows "xs = [a, b] \<or> xs = [b, a]"
proof -
  have "length xs = card (set xs)" using assms(2) by (simp add: distinct_card)
  then have len: "length xs = 2" using assms(1,3) by simp
  then obtain x y where xy: "xs = [x, y]"
    by (cases xs; cases "tl xs"; cases "tl (tl xs)") auto
  then have "{x, y} = {a, b}" using assms(1) by simp
  then have "(x = a \<and> y = b) \<or> (x = b \<and> y = a)" using assms(3) by (auto simp add: doubleton_eq_iff)
  then show ?thesis using xy by auto
qed

lemma path_name_child: "path_name (d @ [n]) = n"
  by (simp add: path_name_def)

lemma release_name_contains: "sublist ''1.2.3'' ''pkg-1.2.3.whl''"
  by code_simp

lemma dev_name_contains: "sublist ''1.2.3'' ''pkg-1.2.3.dev99.whl''"
  by code_simp

lemma glob_whl_nonempty_exists: "glob_whl f d \<noteq> [] \<Longrightarrow> exists_path f d"
  by (auto simp add: glob_whl_def is_dir_def exists_path_def
        split: if_splits option.splits node.splits)

lemma locate_wheel_pair:
  assumes cA: "sublist v (path_name A)" and cB: "sublist v (path_name B)"
    and ex: "exists_path f wheels_path" and g: "glob_whl f wheels_path = [A, B]"
    and sA: "can_stat f A" and sB: "can_stat f B"
  shows "locate_wheel f wheels_path v = Inr (Some (if mtime_of f A < mtime_of f B then B else A))"
proof -
  have st: "list_all (can_stat f) (glob_whl f wheels_path)" using sA sB by (simp add: g)
  show ?thesis
    using cA cB by (simp add: locate_wheel_newest_first [OF ex st] newest_first_def g)
qed

lemma locate_wheel_release_dev:
  assumes "set (glob_whl f wheels_path)
             = {wheels_path @ [''pkg-1.2.3.whl''], wheels_path @ [''pkg-1.2.3.dev99.whl'']}"
    and "distinct (glob_whl f wheels_path)"
    and "can_stat f (wheels_path @ [''pkg-1.2.3.whl''])"
    and "can_stat f (wheels_path @ [''pkg-1.2.3.dev99.whl''])"
  shows "locate_wheel f wheels_path ''1.2.3'' =
           Inr (Some
             (if mtime_of f (wheels_path @ [''pkg-1.2.3.dev99.whl''])
                   < mtime_of f (wheels_path @ [''pkg-1.2.3.whl''])
                then wheels_path @ [''pkg-1.2.3.whl'']
              else if mtime_of f (wheels_path @ [''pkg-1.2.3.whl''])
                   < mtime_of f (wheels_path @ [''pkg-1.2.3.dev99.whl''])
                then wheels_path @ [''pkg-1.2.3.dev99.whl'']
              else hd (glob_whl f wheels_path)))"
proof -
  define A where "A = wheels_path @ [''pkg-1.2.3.whl'']"
  define B where "B = wheels_path @ [''pkg-1.2.3.dev99.whl'']"
  have ne: "A \<noteq> B" by (simp add: A_def B_def)
  have s: "set (glob_whl f wheels_path) = {A, B}" using assms(1) by (simp only: A_def B_def)
  have sA: "can_stat f A" using assms(3) by (simp only: A_def)
  have sB: "can_stat f B" using assms(4) by (simp only: B_def)
  have cA: "sublist ''1.2.3'' (path_name A)"
    by (simp only: A_def path_name_child release_name_contains)
  have cB: "sublist ''1.2.3'' (path_name B)"
    by (simp only: B_def path_name_child dev_name_contains)
  have "glob_whl f wheels_path \<noteq> []" using s by auto
  then have ex: "exists_path f wheels_path" by (rule glob_whl_nonempty_exists)
  have "glob_whl f wheels_path = [A, B] \<or> glob_whl f wheels_path = [B, A]"
    using s assms(2) ne by (rule two_element_list)
  then have "locate_wheel f wheels_path ''1.2.3'' =
               Inr (Some (if mtime_of f B < mtime_of f A then A
                          else if mtime_of f A < mtime_of f B then B
                          else hd (glob_whl f wheels_path)))"
  proof
    assume g: "glob_whl f wheels_path = [A, B]"
    show ?thesis
      using locate_wheel_pair [OF cA cB ex g sA sB] by (simp add: g)
  next
    assume g: "glob_whl f wheels_path = [B, A]"
    show ?thesis
      using locate_wheel_pair [OF cB cA ex g sB sA] by (simp add: g)
  qed
  then show ?thesis by (simp only: A_def B_def)
qed

text \<open>
  C2, as the code has it.  In a wheels directory that exists and whose wheels can all be
  stat'ed, \<open>locate_wheel\<close> returns the first wheel, most recently modified first and in
  scan order among equals, whose name contains the version as a substring; only when no
  name contains the version it returns the most recently modified wheel, and \<open>None\<close>
  when there is no wheel.  In a directory that holds exactly the files \<open>pkg-1.2.3.whl\<close>
  and \<open>pkg-1.2.3.dev99.whl\<close>, both names contain \<open>1.2.3\<close>, so for that version it returns
  the one modified more recently, and the one listed first when the times are equal.
\<close>

theorem locate_wheel_newest_containing:
  "(exists_path f wheels_path \<and> list_all (can_stat f) (glob_whl f wheels_path) \<longrightarrow>
      locate_wheel f wheels_path version =
        Inr (case find (\<lambda>w. sublist version (path_name w)) (newest_first f wheels_path) of
               Some wheel \<Rightarrow> Some wheel
             | None \<Rightarrow>
                 (case newest_first f wheels_path of
                    [] \<Rightarrow> None
                  | wheel # wheels \<Rightarrow> Some wheel)))
   \<and> (set (glob_whl f wheels_path)
         = {wheels_path @ [''pkg-1.2.3.whl''], wheels_path @ [''pkg-1.2.3.dev99.whl'']}
       \<and> distinct (glob_whl f wheels_path)
       \<and> can_stat f (wheels_path @ [''pkg-1.2.3.whl''])
       \<and> can_stat f (wheels_path @ [''pkg-1.2.3.dev99.whl''])
      \<longrightarrow> locate_wheel f wheels_path ''1.2.3'' =
            Inr (Some
              (if mtime_of f (wheels_path @ [''pkg-1.2.3.dev99.whl''])
                    < mtime_of f (wheels_path @ [''pkg-1.2.3.whl''])
                 then wheels_path @ [''pkg-1.2.3.whl'']
               else if mtime_of f (wheels_path @ [''pkg-1.2.3.whl''])
                    < mtime_of f (wheels_path @ [''pkg-1.2.3.dev99.whl''])
                 then wheels_path @ [''pkg-1.2.3.dev99.whl'']
               else hd (glob_whl f wheels_path))))"
proof (intro conjI impI)
  assume "exists_path f wheels_path \<and> list_all (can_stat f) (glob_whl f wheels_path)"
  then show "locate_wheel f wheels_path version =
        Inr (case find (\<lambda>w. sublist version (path_name w)) (newest_first f wheels_path) of
               Some wheel \<Rightarrow> Some wheel
             | None \<Rightarrow>
                 (case newest_first f wheels_path of
                    [] \<Rightarrow> None
                  | wheel # wheels \<Rightarrow> Some wheel))"
    by (simp add: locate_wheel_newest_first)
next
  assume a: "set (glob_whl f wheels_path)
         = {wheels_path @ [''pkg-1.2.3.whl''], wheels_path @ [''pkg-1.2.3.dev99.whl'']}
       \<and> distinct (glob_whl f wheels_path)
       \<and> can_stat f (wheels_path @ [''pkg-1.2.3.whl''])
       \<and> can_stat f (wheels_path @ [''pkg-1.2.3.dev99.whl''])"
  from a have a1: "set (glob_whl f wheels_path)
         = {wheels_path @ [''pkg-1.2.3.whl''], wheels_path @ [''pkg-1.2.3.dev99.whl'']}"
    by (rule conjunct1)
  from a have a2: "distinct (glob_whl f wheels_path)" by simp
  from a have a3: "can_stat f (wheels_path @ [''pkg-1.2.3.whl''])" by simp
  from a have a4: "can_stat f (wheels_path @ [''pkg-1.2.3.dev99.whl''])" by simp
  show "locate_wheel f wheels_path ''1.2.3'' =
            Inr (Some
              (if mtime_of f (wheels_path @ [''pkg-1.2.3.dev99.whl''])
                    < mtime_of f (wheels_path @ [''pkg-1.2.3.whl''])
                 then wheels_path @ [''pkg-1.2.3.whl'']
               else if mtime_of f (wheels_path @ [''pkg-1.2.3.whl''])
                    < mtime_of f (wheels_path @ [''pkg-1.2.3.dev99.whl''])
                 then wheels_path @ [''pkg-1.2.3.dev99.whl'']
               else hd (glob_whl f wheels_path)))"
    using a1 a2 a3 a4 by (rule locate_wheel_release_dev)
qed

theorem locate_wheel_newest_containing_witness:
  "locate_wheel (two_wheels_fs 200 100) [''repo'', ''wheels''] ''1.2.3''
     = Inr (Some [''repo'', ''wheels'', ''pkg-1.2.3.whl''])
   \<and> locate_wheel (two_wheels_fs 100 100) [''repo'', ''wheels''] ''1.2.3''
     = Inr (Some [''repo'', ''wheels'', ''pkg-1.2.3.whl''])
   \<and> locate_wheel (wheels_fs [(''pkg-1.2.3.whl'', 100), (''other-9.9.whl'', 200)])
         [''repo'', ''wheels''] ''1.2.3''
     = Inr (Some [''repo'', ''wheels'', ''pkg-1.2.3.whl''])
   \<and> locate_wheel (wheels_fs [(''pkg-1.2.3.whl'', 100), (''other-9.9.whl'', 200)])
         [''repo'', ''wheels''] ''7.7''
     = Inr (Some [''repo'', ''wheels'', ''other-9.9.whl''])"
proof -
  let ?wp = "[''repo'', ''wheels'']"
  let ?A = "[''repo'', ''wheels'', ''pkg-1.2.3.whl'']"
  let ?B = "[''repo'', ''wheels'', ''pkg-1.2.3.dev99.whl'']"
  let ?F = "wheels_fs [(''pkg-1.2.3.whl'', 100), (''other-9.9.whl'', 200)]"
  have g: "glob_whl (two_wheels_fs t1 t2) ?wp = [?A, ?B]" for t1 t2
    by (simp add: glob_whl_def two_wheels_fs_def is_dir_def node_at_def suffix_def)
  have h: "set (glob_whl (two_wheels_fs t1 t2) ?wp)
             = {?wp @ [''pkg-1.2.3.whl''], ?wp @ [''pkg-1.2.3.dev99.whl'']}
           \<and> distinct (glob_whl (two_wheels_fs t1 t2) ?wp)
           \<and> can_stat (two_wheels_fs t1 t2) (?wp @ [''pkg-1.2.3.whl''])
           \<and> can_stat (two_wheels_fs t1 t2) (?wp @ [''pkg-1.2.3.dev99.whl''])" for t1 t2
    by (simp add: g) (simp add: can_stat_def node_at_def two_wheels_fs_def)
  have m1: "mtime_of (two_wheels_fs t1 t2) ?A = t1" for t1 t2
    by (simp add: mtime_of_def node_at_def two_wheels_fs_def)
  have m2: "mtime_of (two_wheels_fs t1 t2) ?B = t2" for t1 t2
    by (simp add: mtime_of_def node_at_def two_wheels_fs_def)
  note t1 = locate_wheel_newest_containing [of "two_wheels_fs 200 100" ?wp "''1.2.3''"]
  note t2 = locate_wheel_newest_containing [of "two_wheels_fs 100 100" ?wp "''1.2.3''"]
  have r1: "locate_wheel (two_wheels_fs 200 100) ?wp ''1.2.3'' = Inr (Some ?A)"
    using t1 [THEN conjunct2, rule_format, OF h] by (simp add: m1 m2 g)
  have r2: "locate_wheel (two_wheels_fs 100 100) ?wp ''1.2.3'' = Inr (Some ?A)"
    using t2 [THEN conjunct2, rule_format, OF h] by (simp add: m1 m2 g)
  have e: "exists_path ?F ?wp \<and> list_all (can_stat ?F) (glob_whl ?F ?wp)"
    by code_simp
  have n1: "(case find (\<lambda>w. sublist ''1.2.3'' (path_name w)) (newest_first ?F ?wp) of
               Some wheel \<Rightarrow> Some wheel
             | None \<Rightarrow> (case newest_first ?F ?wp of [] \<Rightarrow> None | wheel # wheels \<Rightarrow> Some wheel))
            = Some ?A"
    by code_simp
  have n2: "(case find (\<lambda>w. sublist ''7.7'' (path_name w)) (newest_first ?F ?wp) of
               Some wheel \<Rightarrow> Some wheel
             | None \<Rightarrow> (case newest_first ?F ?wp of [] \<Rightarrow> None | wheel # wheels \<Rightarrow> Some wheel))
            = Some [''repo'', ''wheels'', ''other-9.9.whl'']"
    by code_simp
  have r3: "locate_wheel ?F ?wp ''1.2.3'' = Inr (Some ?A)"
    using locate_wheel_newest_containing [of ?F ?wp "''1.2.3''", THEN conjunct1, rule_format, OF e]
    by (simp only: n1)
  have r4: "locate_wheel ?F ?wp ''7.7'' = Inr (Some [''repo'', ''wheels'', ''other-9.9.whl''])"
    using locate_wheel_newest_containing [of ?F ?wp "''7.7''", THEN conjunct1, rule_format, OF e]
    by (simp only: n2)
  show ?thesis using r1 r2 r3 r4 by simp
qed

text \<open>
  C2, as the specification states it, fails: when \<open>pkg-1.2.3.dev99.whl\<close> is the newer
  file, it is the one returned for the version \<open>1.2.3\<close>.
\<close>

theorem locate_wheel_prefers_newer_dev_wheel:
  "glob_whl (two_wheels_fs 100 200) [''repo'', ''wheels'']
     = [[''repo'', ''wheels'', ''pkg-1.2.3.whl''],
        [''repo'', ''wheels'', ''pkg-1.2.3.dev99.whl'']]
   \<and> locate_wheel (two_wheels_fs 100 200) [''repo'', ''wheels''] ''1.2.3''
     = Inr (Some [''repo'', ''wheels'', ''pkg-1.2.3.dev99.whl''])
   \<and> locate_wheel (two_wheels_fs 100 200) [''repo'', ''wheels''] ''1.2.3''
     \<noteq> Inr (Some [''repo'', ''wheels'', ''pkg-1.2.3.whl''])"
  by code_simp

subsection \<open>Statement sequences\<close>

lemma io_bind_Inr: "m w = (Inr x, w') \<Longrightarrow> io_bind m f w = f x w'"
  by (simp add: io_bind_def)

lemma io_bind_Inl: "m w = (Inl e, w') \<Longrightarrow> io_bind m f w = (Inl e, w')"
  by (simp add: io_bind_def)

lemma io_bind_cases:
  "(\<exists>e. fst (m w) = Inl e \<and> io_bind m f w = (Inl e, snd (m w)))
   \<or> (\<exists>x. fst (m w) = Inr x \<and> io_bind m f w = f x (snd (m w)))"
  by (cases "m w"; cases "fst (m w)") (auto simp add: io_bind_def)

lemma keeps_content_return: "keeps_content p (io_return x)"
  by (simp add: keeps_content_def io_return_def)

lemma keeps_content_raise: "keeps_content p (io_raise e)"
  by (simp add: keeps_content_def io_raise_def)

lemma keeps_content_lift: "keeps_content p (io_lift r)"
  by (simp add: keeps_content_def io_lift_def)

lemma keeps_content_pure: "keeps_content p (\<lambda>w. (g w, w))"
  by (simp add: keeps_content_def)

lemma keeps_content_bind:
  assumes "keeps_content p m" and "\<And>x. keeps_content p (f x)"
  shows "keeps_content p (io_bind m f)"
  unfolding keeps_content_def
proof
  fix w :: world
  from io_bind_cases [of m w f]
  show "file_content (fs (snd (io_bind m f w))) p = file_content (fs w) p"
  proof
    assume "\<exists>e. fst (m w) = Inl e \<and> io_bind m f w = (Inl e, snd (m w))"
    then show ?thesis using assms(1) by (auto simp add: keeps_content_def)
  next
    assume "\<exists>x. fst (m w) = Inr x \<and> io_bind m f w = f x (snd (m w))"
    then obtain x where x: "io_bind m f w = f x (snd (m w))" by blast
    have "file_content (fs (snd (f x (snd (m w))))) p = file_content (fs (snd (m w))) p"
      using assms(2) [of x] by (simp add: keeps_content_def)
    then show ?thesis using assms(1) x by (simp add: keeps_content_def)
  qed
qed

lemma try_finally_snd:
  "snd (try_finally m fin w) = snd (fin (snd (m w)))"
  by (simp add: try_finally_def split: prod.split sum.split)

lemma keeps_content_try_finally:
  assumes "keeps_content p m" and "keeps_content p fin"
  shows "keeps_content p (try_finally m fin)"
  using assms by (simp add: keeps_content_def try_finally_snd)

text \<open>The same for one starting state.\<close>

lemma content_bind_at:
  assumes "file_content (fs (snd (m w))) q = file_content (fs w) q"
    and "\<And>x. file_content (fs (snd (f x (snd (m w))))) q = file_content (fs (snd (m w))) q"
  shows "file_content (fs (snd (io_bind m f w))) q = file_content (fs w) q"
proof -
  from io_bind_cases [of m w f] show ?thesis
  proof
    assume "\<exists>e. fst (m w) = Inl e \<and> io_bind m f w = (Inl e, snd (m w))"
    then show ?thesis using assms(1) by auto
  next
    assume "\<exists>x. fst (m w) = Inr x \<and> io_bind m f w = f x (snd (m w))"
    then obtain x where x: "io_bind m f w = f x (snd (m w))" by blast
    show ?thesis using assms(2) [of x] assms(1) by (simp add: x)
  qed
qed

lemma keeps_file_return: "keeps_file p (io_return x)"
  by (simp add: keeps_file_def io_return_def)

lemma keeps_file_lift: "keeps_file p (io_lift r)"
  by (simp add: keeps_file_def io_lift_def)

lemma keeps_file_pure: "keeps_file p (\<lambda>w. (g w, w))"
  by (simp add: keeps_file_def)

lemma keeps_content_file: "keeps_content p m \<Longrightarrow> keeps_file p m"
  by (simp add: keeps_content_def keeps_file_def)

lemma keeps_file_bind:
  assumes "keeps_file p m" and "\<And>x. keeps_file p (f x)"
  shows "keeps_file p (io_bind m f)"
  unfolding keeps_file_def
proof (intro allI impI)
  fix w :: world assume a: "file_content (fs w) p \<noteq> None"
  then have b: "file_content (fs (snd (m w))) p \<noteq> None"
    using assms(1) by (simp add: keeps_file_def)
  from io_bind_cases [of m w f]
  show "file_content (fs (snd (io_bind m f w))) p \<noteq> None"
  proof
    assume "\<exists>e. fst (m w) = Inl e \<and> io_bind m f w = (Inl e, snd (m w))"
    then show ?thesis using b by auto
  next
    assume "\<exists>x. fst (m w) = Inr x \<and> io_bind m f w = f x (snd (m w))"
    then obtain x where x: "io_bind m f w = f x (snd (m w))" by blast
    show ?thesis using assms(2) [of x] b x by (simp add: keeps_file_def)
  qed
qed

subsection \<open>The filesystem operations\<close>

lemma store_file_content:
  assumes "store_file p c t f = Inr f'"
  shows "file_content f' q = (if q = p then Some c else file_content f q)"
proof -
  have ne: "p \<noteq> []" using assms by (auto simp add: store_file_def node_at_def)
  have f': "f' = AList.update p (File c t) f"
    using assms by (auto simp add: store_file_def split: option.splits node.splits if_splits)
  show ?thesis
    using ne by (simp add: f' file_content_def node_at_def update_conv')
qed

lemma store_file_on_file:
  "file_content f p \<noteq> None \<Longrightarrow> \<exists>f'. store_file p c t f = Inr f'"
  by (auto simp add: store_file_def file_content_def split: option.splits node.splits)

lemma write_text_other:
  assumes "q \<noteq> p"
  shows "file_content (fs (snd (write_text S p c w))) q = file_content (fs w) q"
proof -
  have st: "store_file p b (clock w) (fs w) = Inr f' \<Longrightarrow> file_content f' q = file_content (fs w) q"
    for b f'
    using store_file_content [of p b "clock w" "fs w" f' q] assms by simp
  show ?thesis
    by (auto simp add: write_text_def st split: option.split sum.split)
qed

lemma write_text_keeps_file:
  assumes "file_content (fs w) q \<noteq> None"
  shows "file_content (fs (snd (write_text S p c w))) q \<noteq> None"
proof -
  have st: "file_content f' q \<noteq> None" if "store_file p b (clock w) (fs w) = Inr f'" for b f'
    using store_file_content [OF that, of q] assms by simp
  show ?thesis
  proof (cases "encode S c")
    case None
    show ?thesis
    proof (cases "store_file p [] (clock w) (fs w)")
      case (Inl e)
      then show ?thesis using assms None by (simp add: write_text_def)
    next
      case (Inr f')
      then show ?thesis using st [OF Inr] None by (simp add: write_text_def)
    qed
  next
    case (Some b)
    show ?thesis
    proof (cases "store_file p b (clock w) (fs w)")
      case (Inl e)
      then show ?thesis using assms Some by (simp add: write_text_def)
    next
      case (Inr f')
      then show ?thesis using st [OF Inr] Some by (simp add: write_text_def)
    qed
  qed
qed

lemma write_text_success:
  assumes "file_content (fs w) p \<noteq> None" and "encode S c = Some b"
  shows "fst (write_text S p c w) = Inr ()
         \<and> file_content (fs (snd (write_text S p c w))) p = Some b"
proof -
  obtain f' where f': "store_file p b (clock w) (fs w) = Inr f'"
    using store_file_on_file [OF assms(1)] by blast
  show ?thesis
    using store_file_content [OF f', of p] by (simp add: write_text_def assms(2) f')
qed

lemma keeps_content_write_text: "q \<noteq> p \<Longrightarrow> keeps_content q (write_text S p c)"
  by (simp add: keeps_content_def write_text_other)

lemma keeps_file_write_text: "keeps_file q (write_text S p c)"
  by (simp add: keeps_file_def write_text_keeps_file)

lemma keeps_content_read_text: "keeps_content q (read_text S p)"
  by (simp add: keeps_content_def read_text_def split: option.split node.split)

lemma keeps_content_print: "keeps_content q (print line)"
  by (simp add: keeps_content_def print_def)

lemma keeps_content_datetime_now: "keeps_content q (datetime_now S)"
  by (simp add: keeps_content_def datetime_now_def)

lemma make_dirs_content:
  "make_dirs qs t f = Inr f' \<Longrightarrow> file_content f' q = file_content f q"
proof (induction qs arbitrary: f)
  case Nil
  then show ?case by simp
next
  case (Cons d ds)
  show ?case
  proof (cases "node_at f d")
    case None
    then have d: "d \<noteq> []" "map_of f d = None" by (auto simp add: node_at_def split: if_splits)
    have "make_dirs ds t (AList.update d (Dir t) f) = Inr f'"
      using Cons.prems None by simp
    then have "file_content f' q = file_content (AList.update d (Dir t) f) q"
      by (rule Cons.IH)
    also have "\<dots> = file_content f q"
      using d by (simp add: file_content_def node_at_def update_conv')
    finally show ?thesis .
  next
    case (Some n)
    then show ?thesis
      using Cons.prems Cons.IH [of f] by (cases n) simp_all
  qed
qed

lemma keeps_content_mkdir: "keeps_content q (mkdir p)"
proof -
  have "file_content (fs (snd (mkdir p w))) q = file_content (fs w) q" for w
  proof (cases "make_dirs (tl (prefixes p)) (clock w) (fs w)")
    case (Inl e)
    then show ?thesis by (simp add: mkdir_def)
  next
    case (Inr f')
    then show ?thesis using make_dirs_content [OF Inr, of q] by (simp add: mkdir_def)
  qed
  then show ?thesis by (simp add: keeps_content_def)
qed

lemma keeps_content_copy2:
  assumes "dst \<noteq> q" and "dst @ [path_name src] \<noteq> q"
  shows "keeps_content q (copy2 src dst)"
proof -
  have "file_content (fs (snd (copy2 src dst w))) q = file_content (fs w) q" for w
  proof -
    define dst' where "dst' = (if is_dir (fs w) dst then dst @ [path_name src] else dst)"
    have ne: "q \<noteq> dst'" using assms by (auto simp add: dst'_def)
    have st: "store_file dst' c t (fs w) = Inr f' \<Longrightarrow> file_content f' q = file_content (fs w) q"
      for c t f'
      using store_file_content [of dst' c t "fs w" f' q] ne by simp
    show ?thesis
      unfolding copy2_def Let_def dst'_def [symmetric]
      by (auto simp add: st split: option.split node.split sum.split)
  qed
  then show ?thesis by (simp add: keeps_content_def)
qed

lemma keeps_content_subprocess_run:
  "tools_keep_content S q \<Longrightarrow> keeps_content q (subprocess_run S cmd env cwd)"
  unfolding keeps_content_def tools_keep_content_def
proof
  fix w :: world
  assume a: "\<forall>cmd env cwd f t.
               file_content (fst (snd (subprocess S cmd env cwd (f, t)))) q = file_content f q"
  obtain r f t where s: "subprocess S cmd env cwd (fs w, clock w) = (r, f, t)"
    by (cases "subprocess S cmd env cwd (fs w, clock w)")
  have "file_content f q = file_content (fs w) q"
    using a [rule_format, of cmd env cwd "fs w" "clock w"] by (simp add: s)
  then show "file_content (fs (snd (subprocess_run S cmd env cwd w))) q = file_content (fs w) q"
    by (cases r) (simp_all add: subprocess_run_def s)
qed

lemma keeps_file_subprocess_run:
  "tools_keep_file S q \<Longrightarrow> keeps_file q (subprocess_run S cmd env cwd)"
  unfolding keeps_file_def tools_keep_file_def
proof (intro allI impI)
  fix w :: world
  assume a: "\<forall>cmd env cwd f t. file_content f q \<noteq> None \<longrightarrow>
               file_content (fst (snd (subprocess S cmd env cwd (f, t)))) q \<noteq> None"
    and b: "file_content (fs w) q \<noteq> None"
  obtain r f t where s: "subprocess S cmd env cwd (fs w, clock w) = (r, f, t)"
    by (cases "subprocess S cmd env cwd (fs w, clock w)")
  have "file_content f q \<noteq> None"
    using a [rule_format, of "fs w" cmd env cwd "clock w"] b by (simp add: s)
  then show "file_content (fs (snd (subprocess_run S cmd env cwd w))) q \<noteq> None"
    by (cases r) (simp_all add: subprocess_run_def s)
qed

subsection \<open>\<open>nightly_overrides\<close>\<close>

lemma try_finally_return: "try_finally m (io_return ()) = m"
  by (rule ext) (simp add: try_finally_def io_return_def split: prod.split)

lemma io_bind_return: "io_bind (io_return x) f = f x"
  by (rule ext) (simp add: io_bind_def io_return_def)

lemma read_text_cases:
  "(\<exists>e. read_text S p w = (Inl e, w)) \<or> (\<exists>t. read_text S p w = (Inr t, w))"
  by (cases "fst (read_text S p w)")
     (use read_text_snd [of S p w] in \<open>auto simp add: prod_eq_iff\<close>)

text \<open>Outside a nightly build the scope reads, parses and runs the body, nothing else.\<close>

lemma nightly_overrides_release:
  "nightly_overrides S root False body =
     io_bind (read_text S (root @ [package, ''src'', ''version_utils.py''])) (\<lambda>c1.
     io_bind (read_text S (root @ [''setup.py''])) (\<lambda>c2.
     io_bind (parse_version S (root @ [package, ''src'', ''version_utils.py''])) body))"
  by (simp add: nightly_overrides_def Let_def try_finally_return io_bind_return)

text \<open>
  The rewrite of a nightly build, and the restoring \<open>finally\<close> block, as they stand in
  \<open>nightly_overrides\<close>.
\<close>

lemma nightly_overrides_nightly:
  assumes "read_text S (root @ [package, ''src'', ''version_utils.py'']) w = (Inr t1, w)"
    and "read_text S (root @ [''setup.py'']) w = (Inr t2, w)"
    and "re_search t1 = Some (pre, v, rest)"
  shows "nightly_overrides S root True body w =
     try_finally
       (io_bind
          (io_bind (datetime_now S) (\<lambda>now.
             io_bind
               (io_lift
                  (re_sub (''__version__ = '' @ [CHR 0x22] @ (v @ ''.dev'' @ strftime_YmdH now)
                             @ [CHR 0x22]) t1))
               (\<lambda>new_version_content.
             io_bind
               (write_text S (root @ [package, ''src'', ''version_utils.py''])
                  new_version_content)
               (\<lambda>u.
             io_bind
               (write_text S (root @ [''setup.py''])
                  (str_replace (''name='' @ [CHR 0x22] @ ''keras-cv'' @ [CHR 0x22])
                     (''name='' @ [CHR 0x22] @ ''keras-cv-nightly'' @ [CHR 0x22]) t2))
               (\<lambda>u.
             io_return (v @ ''.dev'' @ strftime_YmdH now))))))
          body)
       (io_bind (write_text S (root @ [package, ''src'', ''version_utils.py'']) t1)
          (\<lambda>u. write_text S (root @ [''setup.py'']) t2))
       w"
  using assms
  by (simp add: nightly_overrides_def Let_def io_bind_Inr parse_version_read)

lemma nightly_overrides_fails_early:
  assumes "(\<exists>e. read_text S (root @ [package, ''src'', ''version_utils.py'']) w = (Inl e, w))
           \<or> (\<exists>e. read_text S (root @ [''setup.py'']) w = (Inl e, w))
           \<or> (\<exists>t. read_text S (root @ [package, ''src'', ''version_utils.py'']) w = (Inr t, w)
                  \<and> re_search t = None)"
  shows "\<exists>e. nightly_overrides S root is_nightly body w = (Inl e, w)"
proof -
  let ?vf = "root @ [package, ''src'', ''version_utils.py'']"
  let ?sf = "root @ [''setup.py'']"
  from read_text_cases [of S ?vf w] show ?thesis
  proof
    assume "\<exists>e. read_text S ?vf w = (Inl e, w)"
    then obtain e where "read_text S ?vf w = (Inl e, w)" by blast
    then show ?thesis by (simp add: nightly_overrides_def Let_def io_bind_Inl)
  next
    assume "\<exists>t. read_text S ?vf w = (Inr t, w)"
    then obtain t1 where r1: "read_text S ?vf w = (Inr t1, w)" by blast
    from read_text_cases [of S ?sf w] show ?thesis
    proof
      assume "\<exists>e. read_text S ?sf w = (Inl e, w)"
      then obtain e where "read_text S ?sf w = (Inl e, w)" by blast
      then show ?thesis by (simp add: nightly_overrides_def Let_def io_bind_Inr r1 io_bind_Inl)
    next
      assume "\<exists>t. read_text S ?sf w = (Inr t, w)"
      then obtain t2 where r2: "read_text S ?sf w = (Inr t2, w)" by blast
      have "re_search t1 = None" using assms r1 r2 by auto
      then have "parse_version S ?vf w
                   = (Inl (ValueError ''Unable to parse __version__ from version_utils.py''), w)"
        using parse_version_read [OF r1] by simp
      then show ?thesis
        by (simp add: nightly_overrides_def Let_def io_bind_Inr r1 r2 io_bind_Inl)
    qed
  qed
qed

text \<open>
  C9.  When \<open>is_nightly\<close> is false and both files can be read and the version parsed, the
  scope is the body itself, run on the unchanged state with the parsed version: the
  state the body starts from and the state the scope ends in are those of the body, so
  the scope writes nothing before or after it, whether the body returns or raises.  When
  a read or the parse fails, the scope raises and leaves the state as it was.  A read
  never changes the state, so these cases are all there are.
\<close>

theorem nightly_overrides_release_no_write:
  "(read_text S (root @ [package, ''src'', ''version_utils.py'']) w = (Inr t1, w)
      \<and> read_text S (root @ [''setup.py'']) w = (Inr t2, w)
      \<and> re_search t1 = Some (pre, v, rest)
    \<longrightarrow> nightly_overrides S root False body w = body v w)
   \<and> ((\<exists>e. read_text S (root @ [package, ''src'', ''version_utils.py'']) w = (Inl e, w))
        \<or> (\<exists>e. read_text S (root @ [''setup.py'']) w = (Inl e, w))
        \<or> (\<exists>t. read_text S (root @ [package, ''src'', ''version_utils.py'']) w = (Inr t, w)
               \<and> re_search t = None)
      \<longrightarrow> (\<exists>e. nightly_overrides S root False body w = (Inl e, w)))
   \<and> snd (read_text S (root @ [package, ''src'', ''version_utils.py'']) w) = w
   \<and> snd (read_text S (root @ [''setup.py'']) w) = w"
proof (intro conjI impI)
  assume a: "read_text S (root @ [package, ''src'', ''version_utils.py'']) w = (Inr t1, w)
      \<and> read_text S (root @ [''setup.py'']) w = (Inr t2, w)
      \<and> re_search t1 = Some (pre, v, rest)"
  then have "parse_version S (root @ [package, ''src'', ''version_utils.py'']) w = (Inr v, w)"
    using parse_version_read [of S "root @ [package, ''src'', ''version_utils.py'']" w t1]
    by simp
  then show "nightly_overrides S root False body w = body v w"
    using a by (simp add: nightly_overrides_release io_bind_Inr)
next
  assume "(\<exists>e. read_text S (root @ [package, ''src'', ''version_utils.py'']) w = (Inl e, w))
        \<or> (\<exists>e. read_text S (root @ [''setup.py'']) w = (Inl e, w))
        \<or> (\<exists>t. read_text S (root @ [package, ''src'', ''version_utils.py'']) w = (Inr t, w)
               \<and> re_search t = None)"
  then show "\<exists>e. nightly_overrides S root False body w = (Inl e, w)"
    by (rule nightly_overrides_fails_early)
next
  show "snd (read_text S (root @ [package, ''src'', ''version_utils.py'']) w) = w"
    by (rule read_text_snd)
  show "snd (read_text S (root @ [''setup.py'']) w) = w"
    by (rule read_text_snd)
qed

theorem nightly_overrides_release_no_write_witness:
  "nightly_overrides (example_sys 3 0 True) example_root False
       (build_commands (example_sys 3 0 True) example_root)
       (example_world example_version_content)
     = build_commands (example_sys 3 0 True) example_root ''1.2.3''
         (example_world example_version_content)
   \<and> fst (nightly_overrides (example_sys 3 0 True) example_root False
             (build_commands (example_sys 3 0 True) example_root)
             (example_world example_version_content))
       = Inl (CalledProcessError 3)
   \<and> nightly_overrides (example_sys 3 0 True) example_root False
         (build_commands (example_sys 3 0 True) example_root)
         (example_world ''version = 1'')
       = (Inl (ValueError ''Unable to parse __version__ from version_utils.py''),
          example_world ''version = 1'')"
proof -
  let ?S = "example_sys 3 0 True"
  let ?w = "example_world example_version_content"
  let ?vf = "example_root @ [package, ''src'', ''version_utils.py'']"
  let ?sf = "example_root @ [''setup.py'']"
  have "fst (read_text ?S ?vf ?w) = Inr example_version_content"
    by code_simp
  then have v1: "read_text ?S ?vf ?w = (Inr example_version_content, ?w)"
    by (simp add: prod_eq_iff read_text_snd)
  have "fst (read_text ?S ?sf ?w) = Inr example_setup_content"
    by code_simp
  then have s1: "read_text ?S ?sf ?w = (Inr example_setup_content, ?w)"
    by (simp add: prod_eq_iff read_text_snd)
  have r1: "re_search example_version_content
              = Some (''# version'' @ [CHR 0x0A], ''1.2.3'', [CHR 0x0A])"
    by code_simp
  have b: "fst (build_commands ?S example_root ''1.2.3'' ?w) = Inl (CalledProcessError 3)"
    by code_simp
  note t1 = nightly_overrides_release_no_write
              [of ?S example_root ?w example_version_content
                  example_setup_content "''# version'' @ [CHR 0x0A]" "''1.2.3''" "[CHR 0x0A]"
                  "build_commands ?S example_root"]
  have a: "nightly_overrides ?S example_root False (build_commands ?S example_root) ?w
           = build_commands ?S example_root ''1.2.3'' ?w"
    using t1 v1 s1 r1 by blast
  have "nightly_overrides ?S example_root False (build_commands ?S example_root)
          (example_world ''version = 1'')
        = (Inl (ValueError ''Unable to parse __version__ from version_utils.py''),
           example_world ''version = 1'')"
    by code_simp
  then show ?thesis using a b by simp
qed

subsection \<open>What a build leaves of the two files\<close>

lemma keeps_content_run_command:
  "tools_keep_content S q \<Longrightarrow> keeps_content q (run_command S cmd env cwd)"
  unfolding run_command_def
  by (intro keeps_content_bind keeps_content_print keeps_content_subprocess_run)

lemma keeps_file_run_command:
  "tools_keep_file S q \<Longrightarrow> keeps_file q (run_command S cmd env cwd)"
  unfolding run_command_def
  by (intro keeps_file_bind keeps_content_file [OF keeps_content_print]
        keeps_file_subprocess_run)

lemma keeps_content_build_commands:
  "tools_keep_content S q \<Longrightarrow> keeps_content q (build_commands S root_path version)"
  unfolding build_commands_def Let_def
  by (intro keeps_content_bind keeps_content_run_command keeps_content_return)

lemma keeps_file_build_commands:
  "tools_keep_file S q \<Longrightarrow> keeps_file q (build_commands S root_path version)"
  unfolding build_commands_def Let_def
  by (intro keeps_file_bind keeps_file_run_command keeps_file_return)

lemma keeps_content_parse_version: "keeps_content q (parse_version S p)"
  unfolding parse_version_def
proof (intro keeps_content_bind keeps_content_read_text)
  fix content
  show "keeps_content q
          (case re_search content of
             None \<Rightarrow> io_raise (ValueError ''Unable to parse __version__ from version_utils.py'')
           | Some (pre, g, rest) \<Rightarrow> io_return g)"
    by (simp add: keeps_content_raise keeps_content_return split: option.split prod.split)
qed

lemma keeps_content_scope_release:
  assumes "\<And>v. keeps_content q (body v)"
  shows "keeps_content q (nightly_overrides S root False body)"
  unfolding nightly_overrides_release
  by (intro keeps_content_bind keeps_content_read_text keeps_content_parse_version assms)

lemma version_file_not_setup_file:
  "root @ [package, ''src'', ''version_utils.py''] \<noteq> root @ [''setup.py'']"
  by simp

text \<open>
  In a nightly build the \<open>finally\<close> block writes the captured texts back; it succeeds
  when both paths still name regular files and the texts can be encoded.
\<close>

lemma restore_content:
  assumes "file_content (fs w) p1 \<noteq> None" and "file_content (fs w) p2 \<noteq> None"
    and "p1 \<noteq> p2" and "encode S t1 = Some b1" and "encode S t2 = Some b2"
  shows "file_content
           (fs (snd (io_bind (write_text S p1 t1) (\<lambda>u. write_text S p2 t2) w))) p1 = Some b1
         \<and> file_content
             (fs (snd (io_bind (write_text S p1 t1) (\<lambda>u. write_text S p2 t2) w))) p2 = Some b2"
proof -
  define wa where "wa = snd (write_text S p1 t1 w)"
  have ok1: "fst (write_text S p1 t1 w) = Inr ()" and a1: "file_content (fs wa) p1 = Some b1"
    using write_text_success [OF assms(1,4)] by (simp_all add: wa_def)
  have w1: "write_text S p1 t1 w = (Inr (), wa)" using ok1 by (simp add: wa_def prod_eq_iff)
  have a2: "file_content (fs wa) p2 \<noteq> None"
    using assms(2) write_text_keeps_file [of w p2 S p1 t1] by (simp add: wa_def)
  have b: "io_bind (write_text S p1 t1) (\<lambda>u. write_text S p2 t2) w = write_text S p2 t2 wa"
    using w1 by (simp add: io_bind_Inr)
  have "file_content (fs (snd (write_text S p2 t2 wa))) p1 = Some b1"
    using assms(3) a1 write_text_other [of p1 p2 S t2 wa] by simp
  moreover have "file_content (fs (snd (write_text S p2 t2 wa))) p2 = Some b2"
    using write_text_success [OF a2 assms(5)] by simp
  ultimately show ?thesis by (simp add: b)
qed

lemma read_text_roundtrip:
  assumes "read_text S p w = (Inr t, w)" and "text_roundtrips S (file_content (fs w) p)"
  shows "\<exists>b. file_content (fs w) p = Some b \<and> encode S t = Some b"
proof -
  from read_text_Inr [OF assms(1)] obtain b d where
    "file_content (fs w) p = Some b" "decode S b = Some d" "t = translate_newlines d"
    by blast
  then show ?thesis using assms(2) by (simp add: text_roundtrips_def)
qed

lemma scope_nightly_restores:
  assumes "\<And>v. keeps_file (root @ [package, ''src'', ''version_utils.py'']) (body v)"
    and "\<And>v. keeps_file (root @ [''setup.py'']) (body v)"
    and "text_roundtrips S (file_content (fs w) (root @ [package, ''src'', ''version_utils.py'']))"
    and "text_roundtrips S (file_content (fs w) (root @ [''setup.py'']))"
  shows "file_content (fs (snd (nightly_overrides S root True body w)))
           (root @ [package, ''src'', ''version_utils.py''])
         = file_content (fs w) (root @ [package, ''src'', ''version_utils.py''])
       \<and> file_content (fs (snd (nightly_overrides S root True body w))) (root @ [''setup.py''])
         = file_content (fs w) (root @ [''setup.py''])"
proof -
  let ?vf = "root @ [package, ''src'', ''version_utils.py'']"
  let ?sf = "root @ [''setup.py'']"
  show ?thesis
  proof (cases "(\<exists>e. read_text S ?vf w = (Inl e, w)) \<or> (\<exists>e. read_text S ?sf w = (Inl e, w))
                \<or> (\<exists>t. read_text S ?vf w = (Inr t, w) \<and> re_search t = None)")
    case True
    then obtain e where "nightly_overrides S root True body w = (Inl e, w)"
      using nightly_overrides_fails_early [of S root w True body] by blast
    then show ?thesis by simp
  next
    case False
    then obtain t1 t2 where r: "read_text S ?vf w = (Inr t1, w)" "read_text S ?sf w = (Inr t2, w)"
      using read_text_cases [of S ?vf w] read_text_cases [of S ?sf w] by auto
    then obtain m where "re_search t1 = Some m" using False by auto
    then obtain pre v rest where m: "re_search t1 = Some (pre, v, rest)" by (cases m) auto
    obtain b1 where b1: "file_content (fs w) ?vf = Some b1" "encode S t1 = Some b1"
      using read_text_roundtrip [OF r(1) assms(3)] by blast
    obtain b2 where b2: "file_content (fs w) ?sf = Some b2" "encode S t2 = Some b2"
      using read_text_roundtrip [OF r(2) assms(4)] by blast
    define T where "T =
       io_bind
          (io_bind (datetime_now S) (\<lambda>now.
             io_bind
               (io_lift
                  (re_sub (''__version__ = '' @ [CHR 0x22] @ (v @ ''.dev'' @ strftime_YmdH now)
                             @ [CHR 0x22]) t1))
               (\<lambda>new_version_content.
             io_bind (write_text S ?vf new_version_content)
               (\<lambda>u.
             io_bind
               (write_text S ?sf
                  (str_replace (''name='' @ [CHR 0x22] @ ''keras-cv'' @ [CHR 0x22])
                     (''name='' @ [CHR 0x22] @ ''keras-cv-nightly'' @ [CHR 0x22]) t2))
               (\<lambda>u.
             io_return (v @ ''.dev'' @ strftime_YmdH now))))))
          body"
    have eq: "nightly_overrides S root True body w =
                try_finally T (io_bind (write_text S ?vf t1) (\<lambda>u. write_text S ?sf t2)) w"
      unfolding T_def using r m by (rule nightly_overrides_nightly)
    have kf: "keeps_file p T" if "\<And>v. keeps_file p (body v)" for p
      unfolding T_def
      by (intro keeps_file_bind keeps_content_file [OF keeps_content_datetime_now]
            keeps_file_lift keeps_file_write_text keeps_file_return that)
    have f1: "file_content (fs (snd (T w))) ?vf \<noteq> None"
      using kf [of ?vf] assms(1) b1(1) by (simp add: keeps_file_def)
    have f2: "file_content (fs (snd (T w))) ?sf \<noteq> None"
      using kf [of ?sf] assms(2) b2(1) by (simp add: keeps_file_def)
    show ?thesis
      using restore_content [OF f1 f2 version_file_not_setup_file b1(2) b2(2)] b1(1) b2(1)
      by (simp add: eq try_finally_snd)
  qed
qed

lemma scope_restores:
  assumes "if is_nightly
           then tools_keep_file S (root @ [package, ''src'', ''version_utils.py''])
                \<and> tools_keep_file S (root @ [''setup.py''])
                \<and> text_roundtrips S
                    (file_content (fs w) (root @ [package, ''src'', ''version_utils.py'']))
                \<and> text_roundtrips S (file_content (fs w) (root @ [''setup.py'']))
           else tools_keep_content S (root @ [package, ''src'', ''version_utils.py''])
                \<and> tools_keep_content S (root @ [''setup.py''])"
  shows "file_content
           (fs (snd (nightly_overrides S root is_nightly (build_commands S root) w)))
           (root @ [package, ''src'', ''version_utils.py''])
         = file_content (fs w) (root @ [package, ''src'', ''version_utils.py''])
       \<and> file_content
           (fs (snd (nightly_overrides S root is_nightly (build_commands S root) w)))
           (root @ [''setup.py''])
         = file_content (fs w) (root @ [''setup.py''])"
proof (cases is_nightly)
  case True
  then show ?thesis
    using assms scope_nightly_restores [of root "build_commands S root" S w]
    by (simp add: keeps_file_build_commands)
next
  case False
  then have "keeps_content (root @ [package, ''src'', ''version_utils.py''])
               (nightly_overrides S root False (build_commands S root))"
    and "keeps_content (root @ [''setup.py''])
               (nightly_overrides S root False (build_commands S root))"
    using assms by (simp_all add: keeps_content_scope_release keeps_content_build_commands)
  then show ?thesis using False by (simp add: keeps_content_def)
qed

lemma keeps_content_after_scope:
  assumes "q = root @ [package, ''src'', ''version_utils.py''] \<or> q = root @ [''setup.py'']"
  shows "keeps_content q
           (case wheel of
              None \<Rightarrow> io_bind (print ''Build failed. No wheel found.'') (\<lambda>u. io_return None)
            | Some wheel \<Rightarrow>
                (let dist_path = root @ [dist_directory];
                     target = dist_path @ [path_name wheel]
                 in
                 io_bind (mkdir dist_path) (\<lambda>u.
                 io_bind (copy2 wheel target) (\<lambda>u.
                 io_bind
                   (print (''Build successful. Wheel file available at ''
                             @ str_of_path (resolve target)))
                   (\<lambda>u.
                 io_return (Some (resolve target)))))))"
proof (cases wheel)
  case None
  then show ?thesis
    by (simp add: keeps_content_bind keeps_content_print keeps_content_return)
next
  case (Some wh)
  have n1: "(root @ [dist_directory]) @ [path_name wh] \<noteq> q"
    using assms by (auto simp add: dist_directory_def package_def)
  have n2: "((root @ [dist_directory]) @ [path_name wh]) @ [path_name wh] \<noteq> q"
    using assms by (auto simp add: dist_directory_def package_def)
  show ?thesis
    unfolding Some option.case Let_def
    by (intro keeps_content_bind keeps_content_mkdir keeps_content_copy2 n1 n2
          keeps_content_print keeps_content_return)
qed

lemma build_restores:
  assumes "if is_nightly
           then tools_keep_file S (resolve root @ [package, ''src'', ''version_utils.py''])
                \<and> tools_keep_file S (resolve root @ [''setup.py''])
                \<and> text_roundtrips S
                    (file_content (fs w)
                       (resolve root @ [package, ''src'', ''version_utils.py'']))
                \<and> text_roundtrips S (file_content (fs w) (resolve root @ [''setup.py'']))
           else tools_keep_content S (resolve root @ [package, ''src'', ''version_utils.py''])
                \<and> tools_keep_content S (resolve root @ [''setup.py''])"
    and "q = resolve root @ [package, ''src'', ''version_utils.py'']
         \<or> q = resolve root @ [''setup.py'']"
  shows "file_content (fs (snd (build S root is_nightly w))) q = file_content (fs w) q"
proof -
  let ?wp = "resolve root @ [wheels_directory]"
  let ?wa = "snd (mkdir ?wp w)"
  let ?scope = "nightly_overrides S (resolve root) is_nightly (build_commands S (resolve root))"
  have mk: "file_content (fs ?wa) p = file_content (fs w) p" for p
    using keeps_content_mkdir [of p ?wp] by (simp add: keeps_content_def)
  have hyp: "if is_nightly
           then tools_keep_file S (resolve root @ [package, ''src'', ''version_utils.py''])
                \<and> tools_keep_file S (resolve root @ [''setup.py''])
                \<and> text_roundtrips S
                    (file_content (fs ?wa)
                       (resolve root @ [package, ''src'', ''version_utils.py'']))
                \<and> text_roundtrips S (file_content (fs ?wa) (resolve root @ [''setup.py'']))
           else tools_keep_content S (resolve root @ [package, ''src'', ''version_utils.py''])
                \<and> tools_keep_content S (resolve root @ [''setup.py''])"
    using assms(1) by (simp add: mk)
  have sc: "file_content (fs (snd (?scope ?wa))) q = file_content (fs ?wa) q"
    using scope_restores [OF hyp] assms(2) by auto
  have rest: "file_content (fs (snd (io_bind ?scope K ?wa))) q = file_content (fs ?wa) q"
    if "\<And>x. keeps_content q (K x)" for K :: "string \<Rightarrow> (path option) io"
    using sc that by (intro content_bind_at) (simp_all add: keeps_content_def)
  show ?thesis
    unfolding build_def Let_def
    by (intro content_bind_at mk rest keeps_content_bind keeps_content_pure
          keeps_content_after_scope [unfolded Let_def, OF assms(2)])
qed

subsection \<open>\<open>build\<close>\<close>



lemma tools_keep_content_file: "tools_keep_content S p \<Longrightarrow> tools_keep_file S p"
  by (simp add: tools_keep_content_def tools_keep_file_def)

lemma file_content_update_other:
  "q \<noteq> p \<Longrightarrow> p \<noteq> [] \<Longrightarrow> file_content (AList.update p n f) q = file_content f q"
  by (simp add: file_content_def node_at_def update_conv')

lemma example_tools_keep_content:
  "q \<noteq> [''repo'', ''wheels'', ''keras_cv.whl''] \<Longrightarrow>
   tools_keep_content (example_sys bazel_status pip_status packs) q"
  by (simp add: tools_keep_content_def example_sys_def example_subprocess_def
        file_content_update_other)

text \<open>
  C1, as the code has it.  Let the commands that a build runs leave the version file and
  \<open>setup.py\<close> regular files and let the bytes of both files survive a read and a write in
  text mode (in a nightly build), or let the commands leave the contents of both files
  unchanged (otherwise).  Then after \<open>build\<close>, whether it returns or raises, both files
  hold exactly the bytes they held before, and a path that named no regular file names
  none.
\<close>

theorem build_restores_files:
  assumes "if is_nightly
           then tools_keep_file S (resolve root @ [package, ''src'', ''version_utils.py''])
                \<and> tools_keep_file S (resolve root @ [''setup.py''])
                \<and> text_roundtrips S
                    (file_content (fs w)
                       (resolve root @ [package, ''src'', ''version_utils.py'']))
                \<and> text_roundtrips S (file_content (fs w) (resolve root @ [''setup.py'']))
           else tools_keep_content S (resolve root @ [package, ''src'', ''version_utils.py''])
                \<and> tools_keep_content S (resolve root @ [''setup.py''])"
  shows "file_content (fs (snd (build S root is_nightly w)))
           (resolve root @ [package, ''src'', ''version_utils.py''])
         = file_content (fs w) (resolve root @ [package, ''src'', ''version_utils.py''])
       \<and> file_content (fs (snd (build S root is_nightly w))) (resolve root @ [''setup.py''])
         = file_content (fs w) (resolve root @ [''setup.py''])"
  using build_restores [OF assms disjI1 [OF refl]] build_restores [OF assms disjI2 [OF refl]]
  by simp

theorem build_restores_files_witness:
  "fst (build (example_sys 3 0 True) example_root True (example_world example_version_content))
     = Inl (CalledProcessError 3)
   \<and> file_content
       (fs (snd (build (example_sys 3 0 True) example_root True
                   (example_world example_version_content))))
       example_version_file
     = Some example_version_content
   \<and> file_content
       (fs (snd (build (example_sys 3 0 True) example_root True
                   (example_world example_version_content))))
       example_setup_file
     = Some example_setup_content
   \<and> file_content
       (fs (snd (build (example_sys 3 0 True) example_root False
                   (example_world example_version_content))))
       example_version_file
     = Some example_version_content"
proof -
  let ?S = "example_sys 3 0 True"
  let ?w = "example_world example_version_content"
  have p1: "resolve example_root @ [package, ''src'', ''version_utils.py''] = example_version_file"
    by (simp add: resolve_def example_root_def package_def example_version_file_def)
  have p2: "resolve example_root @ [''setup.py''] = example_setup_file"
    by (simp add: resolve_def example_root_def example_setup_file_def)
  have k3: "tools_keep_content ?S example_version_file"
    by (rule example_tools_keep_content) (simp add: example_version_file_def)
  have k4: "tools_keep_content ?S example_setup_file"
    by (rule example_tools_keep_content) (simp add: example_setup_file_def)
  have k1: "tools_keep_file ?S example_version_file"
    using k3 by (rule tools_keep_content_file)
  have k2: "tools_keep_file ?S example_setup_file"
    using k4 by (rule tools_keep_content_file)
  have c1: "file_content (fs ?w) example_version_file = Some example_version_content"
    by code_simp
  have c2: "file_content (fs ?w) example_setup_file = Some example_setup_content"
    by code_simp
  have t1: "text_roundtrips ?S (Some example_version_content)"
    by code_simp
  have t2: "text_roundtrips ?S (Some example_setup_content)"
    by code_simp
  have h: "if True
           then tools_keep_file ?S (resolve example_root @ [package, ''src'', ''version_utils.py''])
                \<and> tools_keep_file ?S (resolve example_root @ [''setup.py''])
                \<and> text_roundtrips ?S
                    (file_content (fs ?w)
                       (resolve example_root @ [package, ''src'', ''version_utils.py'']))
                \<and> text_roundtrips ?S
                    (file_content (fs ?w) (resolve example_root @ [''setup.py'']))
           else tools_keep_content ?S
                  (resolve example_root @ [package, ''src'', ''version_utils.py''])
                \<and> tools_keep_content ?S (resolve example_root @ [''setup.py''])"
    using k1 k2 t1 t2 by (simp only: p1 p2 c1 c2 if_True simp_thms)
  have h': "if False
           then tools_keep_file ?S (resolve example_root @ [package, ''src'', ''version_utils.py''])
                \<and> tools_keep_file ?S (resolve example_root @ [''setup.py''])
                \<and> text_roundtrips ?S
                    (file_content (fs ?w)
                       (resolve example_root @ [package, ''src'', ''version_utils.py'']))
                \<and> text_roundtrips ?S
                    (file_content (fs ?w) (resolve example_root @ [''setup.py'']))
           else tools_keep_content ?S
                  (resolve example_root @ [package, ''src'', ''version_utils.py''])
                \<and> tools_keep_content ?S (resolve example_root @ [''setup.py''])"
    using k3 k4 by (simp only: p1 p2 if_False simp_thms)
  have r: "fst (build ?S example_root True ?w) = Inl (CalledProcessError 3)"
    by code_simp
  show ?thesis
    using build_restores_files [OF h] build_restores_files [OF h'] r
    by (simp only: p1 p2 c1 c2 simp_thms)
qed

text \<open>
  C1, as the specification states it, fails: a nightly build reads the version file in
  text mode and writes the text back, so a version file that ends its line with a
  carriage return and a line feed ends it with a line feed alone afterwards, though no
  command has touched it.
\<close>

theorem build_rewrites_line_ends:
  "file_content (fs (example_world crlf_version_content)) example_version_file
     = Some (''__version__ = '' @ [CHR 0x22] @ ''1.2.3'' @ [CHR 0x22] @ [CHR 0x0D, CHR 0x0A])
   \<and> file_content
       (fs (snd (build (example_sys 0 0 False) example_root True
                   (example_world crlf_version_content))))
       example_version_file
     = Some (''__version__ = '' @ [CHR 0x22] @ ''1.2.3'' @ [CHR 0x22] @ [CHR 0x0A])"
  by code_simp


subsection \<open>The rewrite of a nightly build\<close>























subsection \<open>The entry point\<close>

text \<open>
  A command that exits with a status other than zero makes \<open>run_command\<close> raise
  \<open>CalledProcessError\<close> with that status.
\<close>

lemma run_command_nonzero:
  assumes "fst (subprocess S cmd env cwd (fs w, clock w)) = Returncode rc" and "rc \<noteq> 0"
  shows "fst (run_command S cmd env cwd (w :: world)) = Inl (CalledProcessError rc)"
proof -
  obtain r f t where r: "subprocess S cmd env cwd (fs w, clock w) = (r, f, t)"
    by (cases "subprocess S cmd env cwd (fs w, clock w)") auto
  then have "r = Returncode rc" using assms(1) by simp
  then show ?thesis
    using r assms(2)
    by (simp add: run_command_def io_bind_def print_def subprocess_run_def)
qed

text \<open>
  The call of \<open>build\<close> stands in the \<open>try\<close> statement of the entry point: a failing
  command of the build ends the run with the status of the command.
\<close>

lemma main_build_fails:
  assumes "fst (build S (resolve script_dir) (nightly a) w) = Inl (CalledProcessError rc)"
  shows "fst (main S script_dir a w) = SystemExit rc"
proof -
  obtain w1 where "build S (resolve script_dir) (nightly a) w = (Inl (CalledProcessError rc), w1)"
    using assms by (cases "build S (resolve script_dir) (nightly a) w") auto
  then show ?thesis by (simp add: main_def Let_def split: prod.splits)
qed

text \<open>
  The call of \<open>install_whl\<close> stands after the \<open>try\<close> statement: an exception of the
  installation, \<open>CalledProcessError\<close> included, is caught by nothing.
\<close>

lemma main_install_fails:
  assumes "fst (build S (resolve script_dir) (nightly a) w) = Inr (Some whl)"
    and "install a"
    and "fst (install_whl S whl (snd (build S (resolve script_dir) (nightly a) w))) = Inl e"
  shows "fst (main S script_dir a w) = Uncaught e"
proof -
  obtain w1 where b: "build S (resolve script_dir) (nightly a) w = (Inr (Some whl), w1)"
    using assms(1) by (cases "build S (resolve script_dir) (nightly a) w") auto
  then obtain w2 where "install_whl S whl w1 = (Inl e, w2)"
    using assms(3) by (cases "install_whl S whl w1") auto
  then show ?thesis using b assms(2) by (simp add: main_def Let_def)
qed

text \<open>
  C6.  The script is run with \<open>--install\<close>; the build succeeds and leaves a wheel, and
  \<open>pip3\<close> exits with status 2.  The run ends with an uncaught \<open>CalledProcessError\<close>, for
  which the interpreter exits with status 1, not with \<open>sys.exit(2)\<close>.  When it is
  \<open>bazel\<close> that exits with status 2, the run ends with \<open>sys.exit(2)\<close>.
\<close>

theorem main_install_failure_uncaught:
  "fst (main (example_sys 0 2 True) example_root \<lparr> install = True, nightly = False \<rparr>
          (example_world example_version_content))
     = Uncaught (CalledProcessError 2)
   \<and> fst (main (example_sys 2 0 True) example_root \<lparr> install = True, nightly = False \<rparr>
            (example_world example_version_content))
       = SystemExit 2"
  by code_simp

end
